theory Spec2Isabelle
  imports Main "HOL-Library.AList"
begin

section \<open>The organize engine of \<open>wrrarms\<close>: data model\<close>

text \<open>
  Source: \<^verbatim>\<open>src/tool/wrrarms/__main__.py\<close> (\<^verbatim>\<open>SeenCounter\<close>, \<^verbatim>\<open>make_deferred_emit\<close>,
  \<^verbatim>\<open>make_organize_emit\<close>) and \<^verbatim>\<open>src/tool/hoardy_web/util.py\<close>
  (\<^verbatim>\<open>file_content_equals\<close>). Paths and byte strings are character lists, Python's
  unbounded integers are \<open>int\<close>, an \<^verbatim>\<open>OrderedDict\<close> is an association list in insertion
  order: \<open>map_of\<close> is the lookup, \<open>AList.update\<close> is \<^verbatim>\<open>d[k] = v\<close> (in place for a key that is
  present, appended otherwise), \<open>AList.delete\<close> is \<^verbatim>\<open>d.pop(k)\<close>, the head of the list is
  what \<^verbatim>\<open>popitem(False)\<close> removes.
\<close>

type_synonym path = string
type_synonym bytes = string

text \<open>
  Exceptions. Python builds \<^verbatim>\<open>FileNotFoundError\<close> and \<^verbatim>\<open>FileExistsError\<close> from an
  \<^verbatim>\<open>OSError\<close> by its errno, so one constructor with the errno covers them. A
  \<^verbatim>\<open>Failure\<close> carries its formatted message and the descriptions that
  \<^verbatim>\<open>elaborate\<close> has added to it, the latest first; \<^verbatim>\<open>CatastrophicFailure("%s", str(exc))\<close>
  keeps both.
\<close>

datatype exn =
    Failure string "string list"
  | CatastrophicFailure string "string list"
  | OSError nat
  | KeyError
  | AssertionError

definition ENOENT :: nat where "ENOENT = 2"
definition EEXIST :: nat where "EEXIST = 17"
definition EXDEV :: nat where "EXDEV = 18"
definition ENAMETOOLONG :: nat where "ENAMETOOLONG = 36"

definition is_FileNotFoundError :: "exn \<Rightarrow> bool" where
  "is_FileNotFoundError e = (e = OSError ENOENT)"

definition is_FileExistsError :: "exn \<Rightarrow> bool" where
  "is_FileExistsError e = (e = OSError EEXIST)"

subsection \<open>\<^verbatim>\<open>SeenCounter\<close>\<close>

text \<open>
  \<^verbatim>\<open>SeenCounter.mem\<close> is the \<^verbatim>\<open>Memory\<close> object the engine shares with it; the field
  \<open>mem\<close> holds its \<^verbatim>\<open>consumption\<close>, and the engine copies it in and out at each call.
\<close>

record SeenCounter =
  mem :: int
  state :: "(path \<times> int) list"

definition count :: "path \<Rightarrow> SeenCounter \<Rightarrow> int \<times> SeenCounter" where
  "count v sc =
     (case map_of (state sc) v of
        None \<Rightarrow>
          (0, sc\<lparr>state := AList.update v 0 (state sc), mem := mem sc + int (length v)\<rparr>)
      | Some c \<Rightarrow> (c + 1, sc\<lparr>state := AList.update v (c + 1) (state sc)\<rparr>))"

definition pop :: "SeenCounter \<Rightarrow> exn + ((path \<times> int) \<times> SeenCounter)" where
  "pop sc =
     (case state sc of
        [] \<Rightarrow> Inl KeyError
      | (abs_out_path, c) # rest \<Rightarrow>
          Inr ((abs_out_path, c), sc\<lparr>state := rest, mem := mem sc - int (length abs_out_path)\<rparr>))"

text \<open>\<open>count_times n v\<close> is \<open>n\<close> consecutive calls \<^verbatim>\<open>count(v)\<close>, with the values returned.\<close>

fun count_times :: "nat \<Rightarrow> path \<Rightarrow> SeenCounter \<Rightarrow> int list \<times> SeenCounter" where
  "count_times 0 v sc = ([], sc)"
| "count_times (Suc n) v sc =
     (case count v sc of (r, sc') \<Rightarrow>
        (case count_times n v sc' of (rs, sc'') \<Rightarrow> (r # rs, sc'')))"

subsection \<open>The operating system, as the engine sees it\<close>

text \<open>
  The file system and the helpers of \<^verbatim>\<open>wrrarms.io\<close> and \<^verbatim>\<open>wrrarms.wrr\<close> that the engine
  calls are parameters: a record of functions over an abstract world \<open>'w\<close> (the file
  system together with the \<^verbatim>\<open>DeferredSync\<close> log). \<open>os_read\<close> is \<^verbatim>\<open>open(path, "rb")\<close>
  followed by \<^verbatim>\<open>f.read()\<close>; \<open>atomic_op\<close> is \<^verbatim>\<open>atomic_move\<close>, \<^verbatim>\<open>atomic_copy2\<close>,
  \<^verbatim>\<open>atomic_link\<close> or \<^verbatim>\<open>atomic_symlink\<close>, by the action; \<open>wrr_load_stime\<close> and
  \<open>wrr_loadf_stime\<close> are \<^verbatim>\<open>wrr_load_expr(...).stime\<close> and \<^verbatim>\<open>wrr_loadf_expr(...).stime\<close>.
  A source time (\<^verbatim>\<open>Epoch\<close>, a decimal number) is an \<open>int\<close>: only its order is used.
\<close>

record stat_result =
  st_mode :: nat
  st_ino :: nat
  st_dev :: nat

text \<open>\<^verbatim>\<open>stat.S_ISLNK\<close>: \<^verbatim>\<open>(mode & 0o170000) == 0o120000\<close>, that is bits 12 to 15 are 10.\<close>

definition S_ISLNK :: "nat \<Rightarrow> bool" where
  "S_ISLNK m = ((m div 4096) mod 16 = 10)"

text \<open>\<^verbatim>\<open>os.path.samestat\<close>: same inode on the same device.\<close>

definition samestat :: "stat_result \<Rightarrow> stat_result \<Rightarrow> bool" where
  "samestat s1 s2 = (st_ino s1 = st_ino s2 \<and> st_dev s1 = st_dev s2)"

datatype action = Move | Copy | Hardlink | Symlink

fun action_name :: "action \<Rightarrow> string" where
  "action_name Move = ''move''"
| "action_name Copy = ''copy''"
| "action_name Hardlink = ''hardlink''"
| "action_name Symlink = ''symlink''"

record 'w os_env =
  os_lstat :: "'w \<Rightarrow> path \<Rightarrow> exn + stat_result"
  os_stat :: "'w \<Rightarrow> path \<Rightarrow> exn + stat_result"
  os_realpath :: "'w \<Rightarrow> path \<Rightarrow> path"
  os_read :: "'w \<Rightarrow> path \<Rightarrow> exn + bytes"
  os_makedirs :: "path \<Rightarrow> 'w \<Rightarrow> exn option \<times> 'w"
  os_abspath :: "path \<Rightarrow> path"
  os_dirname :: "path \<Rightarrow> path"
  atomic_op :: "action \<Rightarrow> path \<Rightarrow> path \<Rightarrow> bool \<Rightarrow> 'w \<Rightarrow> exn option \<times> 'w"
  dsync_sync :: "'w \<Rightarrow> 'w"
  dsync_finish :: "'w \<Rightarrow> 'w"
  wrr_load_stime :: "bytes \<Rightarrow> path \<Rightarrow> exn + int"
  wrr_loadf_stime :: "'w \<Rightarrow> path \<Rightarrow> exn + int"

definition not_allowed :: string where
  "not_allowed = ''; this is not allowed to prevent accidental data loss''"

definition variance_help :: string where
  "variance_help =
     ''; your `--output` format fails to provide enough variance to solve this problem automatically (did your forget to place a `%(num)d` substitution in there?)''
     @ not_allowed"

text \<open>
  Modelled from the spec: \<^verbatim>\<open>handle_ENAMETOOLONG\<close> of \<^verbatim>\<open>wrrarms.io\<close> is not among the
  sources; the specification says "\<^verbatim>\<open>ENAMETOOLONG\<close>: wrap and re-raise with the offending
  path". Every call is followed by \<^verbatim>\<open>raise exc\<close>, so the function here returns the
  exception that ends up raised.
\<close>

definition handle_ENAMETOOLONG :: "exn \<Rightarrow> path \<Rightarrow> exn" where
  "handle_ENAMETOOLONG exc name =
     (if exc = OSError ENAMETOOLONG
      then Failure (''target file system rejects `'' @ name @ ''` as too long'') []
      else exc)"

definition elaborate :: "string \<Rightarrow> exn \<Rightarrow> exn" where
  "elaborate what exc =
     (case exc of
        Failure m es \<Rightarrow> Failure m (what # es)
      | CatastrophicFailure m es \<Rightarrow> CatastrophicFailure m (what # es)
      | _ \<Rightarrow> exc)"

subsection \<open>\<^verbatim>\<open>hoardy_web.util\<close>\<close>

definition fileobj_content_equals :: "bytes \<Rightarrow> bytes \<Rightarrow> bool" where
  "fileobj_content_equals fdata data = (fdata = data)"

definition file_content_equals :: "'w os_env \<Rightarrow> 'w \<Rightarrow> path \<Rightarrow> bytes \<Rightarrow> exn + bool" where
  "file_content_equals env w p data =
     (case os_read env w p of
        Inr fdata \<Rightarrow> Inr (fileobj_content_equals fdata data)
      | Inl exc \<Rightarrow> if is_FileNotFoundError exc then Inr False else Inl exc)"

subsection \<open>\<^verbatim>\<open>make_organize_emit\<close>: sources and intents\<close>

text \<open>The variables \<^verbatim>\<open>make_organize_emit\<close> computes and its classes close over.\<close>

record organize_cfg =
  action :: action
  actioning :: string
  moving :: bool
  check_data :: bool
  symlinking :: bool
  allow_updates :: bool

definition make_organize_emit :: "action \<Rightarrow> bool \<Rightarrow> exn + organize_cfg" where
  "make_organize_emit a allow =
     (let ing = (if allow then ''updating '' @ action_name a else action_name a @ ''ing'') in
      case a of
        Move \<Rightarrow>
          if allow
          then Inl (Failure ''`--move` and `--latest` are not allowed together, it will lose your data'' [])
          else Inr \<lparr>action = a, actioning = ''moving'', moving = True, check_data = True,
                    symlinking = False, allow_updates = allow\<rparr>
      | Copy \<Rightarrow>
          if allow
          then Inl (Failure ''`--copy` and `--latest` are not allowed together at the moment, it could lose your data'' [])
          else Inr \<lparr>action = a, actioning = ing, moving = False, check_data = True,
                    symlinking = False, allow_updates = allow\<rparr>
      | Hardlink \<Rightarrow>
          if allow
          then Inl (Failure ''`--hardlink` and `--latest` are not allowed together at the moment, it could lose your data'' [])
          else Inr \<lparr>action = a, actioning = ing, moving = False, check_data = True,
                    symlinking = False, allow_updates = allow\<rparr>
      | Symlink \<Rightarrow>
          Inr \<lparr>action = a, actioning = ing, moving = False, check_data = False,
                symlinking = True, allow_updates = allow\<rparr>)"

record OrganizeSource =
  abs_path :: path
  stat_result :: stat_result
  stime_maybe :: "int option"

text \<open>
  \<^verbatim>\<open>get_stime\<close> caches what it loads in \<^verbatim>\<open>self.stime_maybe\<close>: the result comes with the
  source as the call leaves it.
\<close>

definition get_stime ::
  "'w os_env \<Rightarrow> 'w \<Rightarrow> OrganizeSource \<Rightarrow> bytes option \<Rightarrow> (exn + int) \<times> OrganizeSource" where
  "get_stime env w self data =
     (case stime_maybe self of
        Some t \<Rightarrow> (Inr t, self)
      | None \<Rightarrow>
          (case (case data of
                   Some d \<Rightarrow> wrr_load_stime env d (abs_path self)
                 | None \<Rightarrow> wrr_loadf_stime env w (abs_path self)) of
             Inl exc \<Rightarrow> (Inl exc, self)
           | Inr res \<Rightarrow> (Inr res, self\<lparr>stime_maybe := Some res\<rparr>)))"

definition approx_size :: "OrganizeSource \<Rightarrow> int" where
  "approx_size self = 128 + int (length (abs_path self))"

definition format_source :: "OrganizeSource \<Rightarrow> path" where
  "format_source self = abs_path self"

record OrganizeIntent =
  source :: OrganizeSource
  exists :: bool

definition intent_format_source :: "OrganizeIntent \<Rightarrow> path" where
  "intent_format_source self = format_source (source self)"

definition intent_approx_size :: "OrganizeIntent \<Rightarrow> int" where
  "intent_approx_size self = 32 + approx_size (source self)"

text \<open>
  \<^verbatim>\<open>update_from\<close> returns \<^verbatim>\<open>(self.source, permitted)\<close> and may have assigned
  \<^verbatim>\<open>self.source\<close>. The model returns the intent as the call leaves it (the source
  returned is its \<open>source\<close>), whether that source is still the object the intent held
  before (what \<^verbatim>\<open>defer\<close> tests with \<^verbatim>\<open>source is old_source\<close>), and \<^verbatim>\<open>permitted\<close>.
  \<open>update_from_stime\<close> is the part after the content check (from \<^verbatim>\<open>if not allow_updates\<close>).
\<close>

definition update_from_stime ::
  "'w os_env \<Rightarrow> 'w \<Rightarrow> organize_cfg \<Rightarrow> OrganizeIntent \<Rightarrow> OrganizeSource \<Rightarrow> bytes option
     \<Rightarrow> exn + (OrganizeIntent \<times> bool \<times> bool)" where
  "update_from_stime env w cfg self new_source disk_data =
     (if \<not> allow_updates cfg then Inr (self, True, False)
      else
        (case get_stime env w (source self) disk_data of
           (Inl exc, _) \<Rightarrow> Inl exc
         | (Inr t_old, old') \<Rightarrow>
             (case get_stime env w new_source None of
                (Inl exc, _) \<Rightarrow> Inl exc
              | (Inr t_new, new') \<Rightarrow>
                  if t_old < t_new then Inr (self\<lparr>source := new'\<rparr>, False, True)
                  else Inr (self\<lparr>source := old'\<rparr>, True, True))))"

definition update_from ::
  "'w os_env \<Rightarrow> 'w \<Rightarrow> organize_cfg \<Rightarrow> OrganizeIntent \<Rightarrow> OrganizeSource
     \<Rightarrow> exn + (OrganizeIntent \<times> bool \<times> bool)" where
  "update_from env w cfg self new_source =
     (if symlinking cfg \<and> abs_path (source self) = abs_path new_source
      then Inr (self, True, True)
      else if check_data cfg then
        (if samestat (stat_result (source self)) (stat_result new_source)
         then Inr (self, True, True)
         else
           (case os_read env w (abs_path (source self)) of
              Inl exc \<Rightarrow> Inl exc
            | Inr disk_data \<Rightarrow>
                (case file_content_equals env w (abs_path new_source) disk_data of
                   Inl exc \<Rightarrow> Inl exc
                 | Inr same \<Rightarrow>
                     if same then Inr (self, True, True)
                     else update_from_stime env w cfg self new_source (Some disk_data))))
      else update_from_stime env w cfg self new_source None)"

text \<open>
  \<^verbatim>\<open>OrganizeIntent.defer\<close> (\<open>defer\<close> is a keyword here, hence the longer name) returns
  \<^verbatim>\<open>(intent, updated_source, permitted)\<close>. \<open>defer_from_old\<close> is its
  part from the comment "re-create an intent for the target as if it was generated from
  old_source" on.
\<close>

definition defer_from_old ::
  "'w os_env \<Rightarrow> 'w \<Rightarrow> organize_cfg \<Rightarrow> OrganizeSource \<Rightarrow> OrganizeSource
     \<Rightarrow> exn + (OrganizeIntent option \<times> OrganizeSource option \<times> bool)" where
  "defer_from_old env w cfg old_source new_source =
     (case update_from env w cfg \<lparr>source = old_source, exists = True\<rparr> new_source of
        Inl exc \<Rightarrow> Inl exc
      | Inr (intent, is_old, permitted) \<Rightarrow>
          if moving cfg \<and> permitted
          then Inr (Some \<lparr>source = new_source, exists = True\<rparr>, Some new_source, True)
          else if is_old then Inr (None, Some (source intent), permitted)
          else Inr (Some intent, Some (source intent), permitted))"

definition OrganizeIntent_defer ::
  "'w os_env \<Rightarrow> 'w \<Rightarrow> organize_cfg \<Rightarrow> path \<Rightarrow> OrganizeSource option \<Rightarrow> OrganizeSource
     \<Rightarrow> exn + (OrganizeIntent option \<times> OrganizeSource option \<times> bool)" where
  "OrganizeIntent_defer env w cfg abs_out_path old_source new_source =
     (if abs_path new_source = abs_out_path then Inr (None, old_source, True)
      else
        (case old_source of
           Some old \<Rightarrow> defer_from_old env w cfg old new_source
         | None \<Rightarrow>
             (case os_lstat env w abs_out_path of
                Inl exc \<Rightarrow>
                  if is_FileNotFoundError exc
                  then Inr (Some \<lparr>source = new_source, exists = False\<rparr>, Some new_source, True)
                  else Inl (handle_ENAMETOOLONG exc abs_out_path)
              | Inr out_lstat \<Rightarrow>
                  if S_ISLNK (st_mode out_lstat) then
                    (case os_stat env w abs_out_path of
                       Inl exc \<Rightarrow>
                         if is_FileNotFoundError exc
                         then Inr (Some \<lparr>source = new_source, exists = True\<rparr>, Some new_source, True)
                         else Inl exc
                     | Inr out_stat \<Rightarrow>
                         if \<not> symlinking cfg
                         then Inl (Failure (''`--'' @ action_name (action cfg) @ ''` is set but `''
                                   @ abs_out_path @ ''` exists and is a symlink'' @ not_allowed) [])
                         else defer_from_old env w cfg
                                \<lparr>abs_path = os_realpath env w abs_out_path,
                                 stat_result = out_stat, stime_maybe = None\<rparr> new_source)
                  else if symlinking cfg
                  then Inl (Failure (''`--'' @ action_name (action cfg) @ ''` is set but `''
                            @ abs_out_path @ ''` exists and is not a symlink'' @ not_allowed) [])
                  else defer_from_old env w cfg
                         \<lparr>abs_path = abs_out_path, stat_result = out_lstat, stime_maybe = None\<rparr>
                         new_source)))"

text \<open>
  \<^verbatim>\<open>run\<close>: the result (the exception raised, or the source returned) and the world as
  the call leaves it.
\<close>

definition run ::
  "'w os_env \<Rightarrow> organize_cfg \<Rightarrow> OrganizeIntent \<Rightarrow> path \<Rightarrow> bool \<Rightarrow> 'w
     \<Rightarrow> (exn + OrganizeSource) \<times> 'w" where
  "run env cfg self abs_out_path dry_run w =
     (if abs_path (source self) = abs_out_path then (Inl AssertionError, w)
      else if dry_run then (Inr (source self), w)
      else
        (case os_makedirs env (os_dirname env abs_out_path) w of
           (Some exc, w') \<Rightarrow> (Inl (handle_ENAMETOOLONG exc (os_dirname env abs_out_path)), w')
         | (None, w') \<Rightarrow>
             (case atomic_op env (action cfg) (abs_path (source self)) abs_out_path
                     (exists self) w' of
                (None, w'') \<Rightarrow> (Inr (source self), w'')
              | (Some exc, w'') \<Rightarrow>
                  if is_FileExistsError exc
                  then (Inl (Failure (''`'' @ abs_out_path @ ''` already exists'') []), w'')
                  else if exc = OSError ENAMETOOLONG
                  then (Inl (handle_ENAMETOOLONG exc abs_out_path), w'')
                  else if exc = OSError EXDEV
                  then (Inl (Failure (''can't '' @ action_name (action cfg)
                                      @ '' across file systems'') []), w'')
                  else (Inl exc, w''))))"

text \<open>
  Modelled from the spec: \<^verbatim>\<open>atomic_move\<close> of \<^verbatim>\<open>wrrarms.io\<close>, the action operation of
  \<^verbatim>\<open>--move\<close>, is not among the sources. The specification says of it: "on cross-device
  \<^verbatim>\<open>EXDEV\<close> during move, decompose into copy + scheduled unlink", the unlink being one of
  the post-success actions of the sync log ("source-file unlinks for move operations that
  were implemented as copy+unlink across filesystems"), which \<^verbatim>\<open>finish()\<close> runs. The
  rename, the copy and the scheduling of an unlink in the sync log are parameters.
\<close>

definition atomic_move ::
  "(path \<Rightarrow> path \<Rightarrow> bool \<Rightarrow> 'w \<Rightarrow> exn option \<times> 'w)
     \<Rightarrow> (path \<Rightarrow> path \<Rightarrow> bool \<Rightarrow> 'w \<Rightarrow> exn option \<times> 'w)
     \<Rightarrow> (path \<Rightarrow> 'w \<Rightarrow> 'w)
     \<Rightarrow> path \<Rightarrow> path \<Rightarrow> bool \<Rightarrow> 'w \<Rightarrow> exn option \<times> 'w" where
  "atomic_move rename_op copy_op schedule_unlink src_path dst_path allow_overwrites w =
     (case rename_op src_path dst_path allow_overwrites w of
        (None, w') \<Rightarrow> (None, w')
      | (Some exc, w') \<Rightarrow>
          if exc = OSError EXDEV then
            (case copy_op src_path dst_path allow_overwrites w' of
               (None, w'') \<Rightarrow> (None, schedule_unlink src_path w'')
             | (Some exc', w'') \<Rightarrow> (Some exc', w''))
          else (Some exc, w'))"

subsection \<open>\<^verbatim>\<open>make_deferred_emit\<close>: the engine\<close>

text \<open>
  The options of \<^verbatim>\<open>cargs\<close> that the engine reads. \<open>max_memory\<close> is in MiB.
\<close>

record cargs =
  max_seen :: int
  max_cached :: int
  max_deferred :: int
  max_batched :: int
  max_memory :: int
  terminator :: "bytes option"
  quiet :: bool
  dry_run :: bool
  lazy :: bool
  errors :: string

text \<open>
  What the engine does to the outside, in order: the action lines on stderr, the logged
  errors, the calls of \<^verbatim>\<open>dsync.sync()\<close> and \<^verbatim>\<open>dsync.finish()\<close>, and the writes, the flush
  and the \<^verbatim>\<open>fsync_maybe\<close> of stdout, the reporting channel. Writing to stderr and
  stdout and running the sync log are taken to succeed; the exceptions modelled are those
  of the file system calls of \<^verbatim>\<open>defer\<close>, \<^verbatim>\<open>update_from\<close> and \<^verbatim>\<open>run\<close>, and those the engine
  raises itself.
\<close>

datatype event =
    StderrAction string path path
  | LoggingError exn
  | DsyncSync
  | DsyncFinish
  | StdoutWrite path
  | StdoutWriteBytes bytes
  | StdoutFlush
  | StdoutFsync

text \<open>
  The variables \<^verbatim>\<open>make_deferred_emit\<close> closes over: \<^verbatim>\<open>mem.consumption\<close>,
  \<^verbatim>\<open>seen_counter.state\<close>, \<^verbatim>\<open>deferred_intents\<close>, \<^verbatim>\<open>source_cache\<close>; the world (file
  system and \<^verbatim>\<open>dsync\<close>); and the events so far.
\<close>

record 'w engine =
  consumption :: int
  seen_state :: "(path \<times> int) list"
  deferred_intents :: "(path \<times> OrganizeIntent) list"
  source_cache :: "(path \<times> OrganizeSource) list"
  world :: 'w
  trace :: "event list"

definition init_engine :: "'w \<Rightarrow> 'w engine" where
  "init_engine w =
     \<lparr>consumption = 0, seen_state = [], deferred_intents = [], source_cache = [],
      world = w, trace = []\<rparr>"

text \<open>
  \<^verbatim>\<open>complete_intent\<close>, with \<^verbatim>\<open>done_files\<close> passed in and out. The result \<open>Some exc\<close> is
  the exception raised. \<^verbatim>\<open>OrganizeIntent.run\<close> never returns \<^verbatim>\<open>None\<close>, so the branch
  \<^verbatim>\<open>updated_source is not None\<close> is always taken.
\<close>

definition complete_intent ::
  "'w os_env \<Rightarrow> cargs \<Rightarrow> organize_cfg \<Rightarrow> path \<Rightarrow> OrganizeIntent
     \<Rightarrow> path list option \<times> 'w engine \<Rightarrow> exn option \<times> path list option \<times> 'w engine" where
  "complete_intent env ca cfg abs_out_path intent ds =
     (case ds of (done_files, st) \<Rightarrow>
      let st1 = st\<lparr>consumption := consumption st
                    - (intent_approx_size intent + int (length abs_out_path))\<rparr>;
          st2 = (if \<not> quiet ca
                 then st1\<lparr>trace := trace st1 @
                        [StderrAction
                           (if dry_run ca then ''dry-run: (not) '' @ actioning cfg else actioning cfg)
                           (intent_format_source intent) abs_out_path]\<rparr>
                 else st1)
      in case run env cfg intent abs_out_path (dry_run ca) (world st2) of
           (Inl exc, w') \<Rightarrow>
             (case exc of
                Failure m es \<Rightarrow>
                  if errors ca = ''ignore'' then (None, done_files, st2\<lparr>world := w'\<rparr>)
                  else
                    let exc' = elaborate (''while '' @ actioning cfg @ '' `''
                                 @ intent_format_source intent @ ''` -> `'' @ abs_out_path @ ''`'') exc
                    in if errors ca \<noteq> ''fail''
                       then (None, done_files,
                             st2\<lparr>world := w', trace := trace st2 @ [LoggingError exc']\<rparr>)
                       else (case exc' of
                               Failure m' es' \<Rightarrow>
                                 (Some (CatastrophicFailure m' es'), done_files, st2\<lparr>world := w'\<rparr>)
                             | _ \<Rightarrow> (Some exc', done_files, st2\<lparr>world := w'\<rparr>))
              | _ \<Rightarrow> (Some exc, done_files, st2\<lparr>world := w'\<rparr>))
         | (Inr updated_source, w') \<Rightarrow>
             let st3 = st2\<lparr>world := w'\<rparr>;
                 done_files' = map_option (\<lambda>fs. fs @ [abs_out_path]) done_files;
                 st4 = (case map_of (source_cache st3) abs_out_path of
                          None \<Rightarrow> st3
                        | Some old_source \<Rightarrow>
                            st3\<lparr>consumption := consumption st3
                                  - (approx_size old_source + int (length abs_out_path))\<rparr>)
             in (None, done_files',
                 st4\<lparr>source_cache := AList.update abs_out_path updated_source (source_cache st4),
                     consumption := consumption st4
                       + (approx_size updated_source + int (length abs_out_path))\<rparr>))"

text \<open>
  The three loops of \<^verbatim>\<open>flush_updates\<close>. Each counts down a number taken before the loops
  start (\<^verbatim>\<open>num_seen\<close>, \<^verbatim>\<open>num_deferred\<close>, \<^verbatim>\<open>num_cached\<close>), so each is a recursion on that
  number; \<^verbatim>\<open>popitem\<close> on an empty dictionary raises \<^verbatim>\<open>KeyError\<close>.
\<close>

fun flush_seen ::
  "'w os_env \<Rightarrow> cargs \<Rightarrow> organize_cfg \<Rightarrow> int \<Rightarrow> int \<Rightarrow> nat
     \<Rightarrow> int \<times> path list option \<times> 'w engine
     \<Rightarrow> exn option \<times> int \<times> path list option \<times> 'w engine" where
  "flush_seen env ca cfg max_seen' max_memory' 0 x = (None, x)"
| "flush_seen env ca cfg max_seen' max_memory' (Suc n) (num_deferred, done_files, st) =
     (if int (Suc n) > max_seen' \<or> consumption st > max_memory' then
        (case pop \<lparr>mem = consumption st, state = seen_state st\<rparr> of
           Inl exc \<Rightarrow> (Some exc, num_deferred, done_files, st)
         | Inr ((abs_out_path, c), sc) \<Rightarrow>
             let st1 = st\<lparr>consumption := mem sc, seen_state := state sc\<rparr> in
             (case map_of (deferred_intents st1) abs_out_path of
                None \<Rightarrow> flush_seen env ca cfg max_seen' max_memory' n (num_deferred, done_files, st1)
              | Some intent \<Rightarrow>
                  (case complete_intent env ca cfg abs_out_path intent
                          (done_files,
                           st1\<lparr>deferred_intents := AList.delete abs_out_path (deferred_intents st1)\<rparr>) of
                     (Some exc, done_files', st2) \<Rightarrow> (Some exc, num_deferred, done_files', st2)
                   | (None, done_files', st2) \<Rightarrow>
                       flush_seen env ca cfg max_seen' max_memory' n
                         (num_deferred - 1, done_files', st2))))
      else (None, num_deferred, done_files, st))"

fun flush_deferred ::
  "'w os_env \<Rightarrow> cargs \<Rightarrow> organize_cfg \<Rightarrow> int \<Rightarrow> int \<Rightarrow> nat
     \<Rightarrow> path list option \<times> 'w engine \<Rightarrow> exn option \<times> path list option \<times> 'w engine" where
  "flush_deferred env ca cfg max_deferred' max_memory' 0 x = (None, x)"
| "flush_deferred env ca cfg max_deferred' max_memory' (Suc n) (done_files, st) =
     (if int (Suc n) > max_deferred' \<or> consumption st > max_memory' then
        (case deferred_intents st of
           [] \<Rightarrow> (Some KeyError, done_files, st)
         | (abs_out_path, intent) # rest \<Rightarrow>
             (case complete_intent env ca cfg abs_out_path intent
                     (done_files, st\<lparr>deferred_intents := rest\<rparr>) of
                (Some exc, done_files', st1) \<Rightarrow> (Some exc, done_files', st1)
              | (None, done_files', st1) \<Rightarrow>
                  flush_deferred env ca cfg max_deferred' max_memory' n (done_files', st1)))
      else (None, done_files, st))"

fun flush_cache :: "int \<Rightarrow> int \<Rightarrow> nat \<Rightarrow> 'w engine \<Rightarrow> exn option \<times> 'w engine" where
  "flush_cache max_cached' max_memory' 0 st = (None, st)"
| "flush_cache max_cached' max_memory' (Suc n) st =
     (if int (Suc n) > max_cached' \<or> consumption st > max_memory' then
        (case source_cache st of
           [] \<Rightarrow> (Some KeyError, st)
         | (abs_out_path, src) # rest \<Rightarrow>
             flush_cache max_cached' max_memory' n
               (st\<lparr>source_cache := rest,
                   consumption := consumption st
                     - (approx_size src + int (length abs_out_path))\<rparr>))
      else (None, st))"

text \<open>The report to stdout of \<^verbatim>\<open>flush_updates\<close> (\<^verbatim>\<open>if done_files is not None\<close>).\<close>

definition report_done :: "cargs \<Rightarrow> path list option \<Rightarrow> event list" where
  "report_done ca done_files =
     (case done_files of
        None \<Rightarrow> []
      | Some files \<Rightarrow>
          concat (map (\<lambda>abs_out_path.
                         [StdoutWrite abs_out_path,
                          StdoutWriteBytes (case terminator ca of Some t \<Rightarrow> t | None \<Rightarrow> [])])
                      files)
          @ [StdoutFlush, StdoutFsync])"

definition flush_updates ::
  "'w os_env \<Rightarrow> cargs \<Rightarrow> organize_cfg \<Rightarrow> bool \<Rightarrow> 'w engine \<Rightarrow> exn option \<times> 'w engine" where
  "flush_updates env ca cfg final st =
     (let max_deferred' = (if \<not> final then max_deferred ca else 0);
          max_memory' = (if \<not> final then max_memory ca * 1024 * 1024 else 0);
          num_deferred = length (deferred_intents st);
          num_cached = length (source_cache st);
          num_seen = length (seen_state st)
      in if int num_deferred \<le> max_deferred' \<and> int num_cached \<le> max_cached ca \<and>
            int num_seen \<le> max_seen ca \<and> consumption st \<le> max_memory'
         then (None, st)
         else
           (case flush_seen env ca cfg (max_seen ca) max_memory' num_seen
                   (int num_deferred,
                    (case terminator ca of None \<Rightarrow> None | Some t \<Rightarrow> Some []), st) of
              (Some exc, num_deferred1, done_files1, st1) \<Rightarrow> (Some exc, st1)
            | (None, num_deferred1, done_files1, st1) \<Rightarrow>
                (case flush_deferred env ca cfg
                        (if \<not> final \<and> num_deferred1 \<le> max_deferred' + max_batched ca \<and>
                            consumption st1 \<le> max_memory'
                         then max_deferred' + max_batched ca else max_deferred')
                        max_memory' (nat num_deferred1) (done_files1, st1) of
                   (Some exc, done_files2, st2) \<Rightarrow> (Some exc, st2)
                 | (None, done_files2, st2) \<Rightarrow>
                     flush_cache (max_cached ca) max_memory' num_cached
                       (st2\<lparr>world := dsync_finish env (dsync_sync env (world st2)),
                            trace := trace st2 @ [DsyncSync] @ report_done ca done_files2
                                     @ [DsyncFinish]\<rparr>))))"

definition finish_updates ::
  "'w os_env \<Rightarrow> cargs \<Rightarrow> organize_cfg \<Rightarrow> 'w engine \<Rightarrow> exn option \<times> 'w engine" where
  "finish_updates env ca cfg st =
     (case flush_updates env ca cfg True st of
        (Some exc, st') \<Rightarrow> (Some exc, st')
      | (None, st') \<Rightarrow> if consumption st' = 0 then (None, st') else (Some AssertionError, st'))"

text \<open>
  What \<^verbatim>\<open>emit\<close> reads of a \<^verbatim>\<open>ReqresExpr\<close>: whether \<^verbatim>\<open>filters_allow\<close> lets it through, and
  \<^verbatim>\<open>os.path.join(destination, output_format % rrexpr)\<close> as a function of the value
  of \<^verbatim>\<open>rrexpr.items["num"]\<close>.
\<close>

record rrexpr =
  filters_allow :: bool
  output_path :: "int \<Rightarrow> path"

text \<open>
  One turn of the \<^verbatim>\<open>while True\<close> loop of \<^verbatim>\<open>emit\<close>, in two parts: \<open>emit_attempt\<close> takes
  the old source and the queued intent out of their dictionaries and calls
  \<^verbatim>\<open>update_from\<close> or \<^verbatim>\<open>defer\<close>; \<open>reinstate\<close> puts the intent and the updated source back.
\<close>

definition emit_attempt ::
  "'w os_env \<Rightarrow> organize_cfg \<Rightarrow> OrganizeSource \<Rightarrow> path \<Rightarrow> 'w engine
     \<Rightarrow> (exn + (OrganizeIntent option \<times> OrganizeSource option \<times> bool)) \<times> 'w engine" where
  "emit_attempt env cfg new_source abs_out_path st =
     (let (old_source, st1) =
            (case map_of (source_cache st) abs_out_path of
               None \<Rightarrow> (None, st)
             | Some old \<Rightarrow>
                 (Some old,
                  st\<lparr>source_cache := AList.delete abs_out_path (source_cache st),
                     consumption := consumption st
                       - (approx_size old + int (length abs_out_path))\<rparr>))
      in case map_of (deferred_intents st1) abs_out_path of
           None \<Rightarrow>
             (OrganizeIntent_defer env (world st1) cfg abs_out_path old_source new_source, st1)
         | Some intent \<Rightarrow>
             let st2 = st1\<lparr>deferred_intents := AList.delete abs_out_path (deferred_intents st1),
                           consumption := consumption st1
                             - (intent_approx_size intent + int (length abs_out_path))\<rparr>
             in (case update_from env (world st2) cfg intent new_source of
                   Inl exc \<Rightarrow> (Inl exc, st2)
                 | Inr (intent', is_old, permitted) \<Rightarrow>
                     (Inr (Some intent', Some (source intent'), permitted), st2)))"

definition reinstate ::
  "path \<Rightarrow> OrganizeIntent option \<Rightarrow> OrganizeSource option \<Rightarrow> 'w engine \<Rightarrow> 'w engine" where
  "reinstate abs_out_path intent updated_source st =
     (let st1 = (case intent of
                   None \<Rightarrow> st
                 | Some i \<Rightarrow>
                     st\<lparr>deferred_intents := AList.update abs_out_path i (deferred_intents st),
                        consumption := consumption st
                          + (intent_approx_size i + int (length abs_out_path))\<rparr>)
      in case updated_source of
           None \<Rightarrow> st1
         | Some u \<Rightarrow>
             st1\<lparr>source_cache := AList.update abs_out_path u (source_cache st1),
                 consumption := consumption st1 + (approx_size u + int (length abs_out_path))\<rparr>)"

definition variance_failure :: "organize_cfg \<Rightarrow> OrganizeSource \<Rightarrow> path \<Rightarrow> exn" where
  "variance_failure cfg new_source abs_out_path =
     elaborate (''while '' @ actioning cfg @ '' `'' @ format_source new_source
                @ ''` -> `'' @ abs_out_path @ ''`'')
       (Failure (''destination already exists'' @ variance_help) [])"

text \<open>
  \<open>emit_iteration\<close> is the body of the loop down to \<^verbatim>\<open>if not permitted\<close>: it returns
  \<^verbatim>\<open>rel_out_path\<close>, \<^verbatim>\<open>abs_out_path\<close>, and either the exception raised or \<^verbatim>\<open>intent\<close> and
  \<^verbatim>\<open>permitted\<close>, with the engine as the turn leaves it.
\<close>

definition emit_iteration ::
  "'w os_env \<Rightarrow> organize_cfg \<Rightarrow> OrganizeSource \<Rightarrow> rrexpr \<Rightarrow> 'w engine
     \<Rightarrow> path \<times> path \<times> (exn + (OrganizeIntent option \<times> bool)) \<times> 'w engine" where
  "emit_iteration env cfg new_source rr st =
     (case count (output_path rr 0) \<lparr>mem = consumption st, state = seen_state st\<rparr> of
        (num, sc) \<Rightarrow>
          let st0 = st\<lparr>consumption := mem sc, seen_state := state sc\<rparr>;
              rel_out_path = output_path rr num;
              abs_out_path = os_abspath env rel_out_path
          in (case emit_attempt env cfg new_source abs_out_path st0 of
                (Inl exc, st1) \<Rightarrow> (rel_out_path, abs_out_path, Inl exc, st1)
              | (Inr (intent, updated_source, permitted), st1) \<Rightarrow>
                  (rel_out_path, abs_out_path, Inr (intent, permitted),
                   reinstate abs_out_path intent updated_source st1)))"

text \<open>
  The loop may run forever (a template whose paths collide without two equal paths in a
  row), so it takes fuel: \<open>None\<close> is "still running when the fuel ran out". A result
  \<open>Inr (intent, abs_out_path)\<close> is the \<^verbatim>\<open>break\<close>.
\<close>

fun emit_loop ::
  "nat \<Rightarrow> 'w os_env \<Rightarrow> organize_cfg \<Rightarrow> OrganizeSource \<Rightarrow> rrexpr \<Rightarrow> path option \<Rightarrow> 'w engine
     \<Rightarrow> ((exn + (OrganizeIntent option \<times> path)) \<times> 'w engine) option" where
  "emit_loop 0 env cfg new_source rr prev_rel_out_path st = None"
| "emit_loop (Suc fuel) env cfg new_source rr prev_rel_out_path st =
     (case emit_iteration env cfg new_source rr st of
        (rel_out_path, abs_out_path, Inl exc, st1) \<Rightarrow> Some (Inl exc, st1)
      | (rel_out_path, abs_out_path, Inr (intent, permitted), st2) \<Rightarrow>
          if \<not> permitted then
            (if prev_rel_out_path = Some rel_out_path
             then Some (Inl (variance_failure cfg new_source abs_out_path), st2)
             else emit_loop fuel env cfg new_source rr (Some rel_out_path) st2)
          else Some (Inr (intent, abs_out_path), st2))"

definition emit ::
  "nat \<Rightarrow> 'w os_env \<Rightarrow> cargs \<Rightarrow> organize_cfg \<Rightarrow> OrganizeSource \<Rightarrow> rrexpr \<Rightarrow> 'w engine
     \<Rightarrow> (exn option \<times> 'w engine) option" where
  "emit fuel env ca cfg new_source rr st =
     (if \<not> filters_allow rr then Some (None, st)
      else
        (case emit_loop fuel env cfg new_source rr None st of
           None \<Rightarrow> None
         | Some (Inl exc, st1) \<Rightarrow> Some (Some exc, st1)
         | Some (Inr (intent, abs_out_path), st1) \<Rightarrow>
             let st2 = (case intent of
                          Some i \<Rightarrow> st1
                        | None \<Rightarrow>
                            (case terminator ca of
                               None \<Rightarrow> st1
                             | Some t \<Rightarrow>
                                 st1\<lparr>trace := trace st1 @
                                       [StdoutWrite abs_out_path, StdoutWriteBytes t]\<rparr>))
             in if \<not> lazy ca then Some (flush_updates env ca cfg False st2)
                else Some (None, st2)))"

subsection \<open>The memory account\<close>

text \<open>
  What the code adds to \<^verbatim>\<open>mem.consumption\<close> for an entry of each dictionary: for a cached
  source and for a queued intent its \<^verbatim>\<open>approx_size()\<close> and the length of its key, for a
  seen key its length. \<open>accounted\<close>: the three dictionaries have no key twice, and
  \<^verbatim>\<open>mem.consumption\<close> is the sum over all their entries.
\<close>

definition cache_size :: "(path \<times> OrganizeSource) list \<Rightarrow> int" where
  "cache_size xs = sum_list (map (\<lambda>(k, s). approx_size s + int (length k)) xs)"

definition intents_size :: "(path \<times> OrganizeIntent) list \<Rightarrow> int" where
  "intents_size xs = sum_list (map (\<lambda>(k, i). intent_approx_size i + int (length k)) xs)"

definition seen_size :: "(path \<times> int) list \<Rightarrow> int" where
  "seen_size xs = sum_list (map (\<lambda>(k, c). int (length k)) xs)"

definition accounted :: "'w engine \<Rightarrow> bool" where
  "accounted st =
     (distinct (map fst (seen_state st)) \<and> distinct (map fst (deferred_intents st)) \<and>
      distinct (map fst (source_cache st)) \<and>
      consumption st = cache_size (source_cache st) + intents_size (deferred_intents st)
                       + seen_size (seen_state st))"

text \<open>
  The sum as the specification words it: \<^verbatim>\<open>approx_size()\<close> of every cached source and of
  every queued intent, and the length of every seen key.
\<close>

definition spec_account :: "'w engine \<Rightarrow> int" where
  "spec_account st =
     sum_list (map (\<lambda>(k, s). approx_size s) (source_cache st))
     + sum_list (map (\<lambda>(k, i). intent_approx_size i) (deferred_intents st))
     + sum_list (map (\<lambda>(k, c). int (length k)) (seen_state st))"

text \<open>The events that only log: the action lines and the logged errors.\<close>

definition is_log :: "event \<Rightarrow> bool" where
  "is_log e = (case e of StderrAction a b c \<Rightarrow> True | LoggingError x \<Rightarrow> True | _ \<Rightarrow> False)"

subsection \<open>A small concrete world, for evaluation\<close>

text \<open>
  The theorems below hold for every environment. To evaluate the engine on concrete
  inputs, \<open>example_env\<close> is a flat file table: each path has a stat record and bytes; an
  entry whose mode is that of a symbolic link holds its target path as its bytes. The
  action operations write the destination entry (and \<^verbatim>\<open>atomic_move\<close> removes the source),
  refusing an existing destination unless told that it exists. The source time of a record
  is the length of its bytes.
\<close>

definition example_env :: "((path \<times> stat_result \<times> bytes) list) os_env" where
  "example_env =
     \<lparr>os_lstat = (\<lambda>w p. case map_of w p of
                   None \<Rightarrow> Inl (OSError ENOENT)
                 | Some (st, d) \<Rightarrow> Inr st),
      os_stat = (\<lambda>w p. case map_of w p of
                   None \<Rightarrow> Inl (OSError ENOENT)
                 | Some (st, d) \<Rightarrow>
                     if S_ISLNK (st_mode st)
                     then (case map_of w d of
                             None \<Rightarrow> Inl (OSError ENOENT)
                           | Some (st', d') \<Rightarrow> Inr st')
                     else Inr st),
      os_realpath = (\<lambda>w p. case map_of w p of
                   None \<Rightarrow> p
                 | Some (st, d) \<Rightarrow> if S_ISLNK (st_mode st) then d else p),
      os_read = (\<lambda>w p. case map_of w p of
                   None \<Rightarrow> Inl (OSError ENOENT)
                 | Some (st, d) \<Rightarrow>
                     if S_ISLNK (st_mode st)
                     then (case map_of w d of
                             None \<Rightarrow> Inl (OSError ENOENT)
                           | Some (st', d') \<Rightarrow> Inr d')
                     else Inr d),
      os_makedirs = (\<lambda>d w. (None, w)),
      os_abspath = (\<lambda>p. p),
      os_dirname = (\<lambda>p. rev (drop 1 (dropWhile (\<lambda>c. c \<noteq> CHR ''/'') (rev p)))),
      atomic_op = (\<lambda>a src dst ex w. case map_of w src of
                   None \<Rightarrow> (Some (OSError ENOENT), w)
                 | Some (st, d) \<Rightarrow>
                     if \<not> ex \<and> map_of w dst \<noteq> None then (Some (OSError EEXIST), w)
                     else (None,
                       (if a = Move then AList.delete src else id)
                         (AList.update dst
                            (if a = Symlink
                             then (\<lparr>st_mode = 41471, st_ino = 0, st_dev = 0\<rparr>, src)
                             else (st, d)) w))),
      dsync_sync = (\<lambda>w. w),
      dsync_finish = (\<lambda>w. w),
      wrr_load_stime = (\<lambda>d p. Inr (int (length d))),
      wrr_loadf_stime = (\<lambda>w p. case map_of w p of
                   None \<Rightarrow> Inl (OSError ENOENT)
                 | Some (st, d) \<Rightarrow> Inr (int (length d)))\<rparr>"

definition reg :: "nat \<Rightarrow> stat_result" where
  "reg i = \<lparr>st_mode = 33188, st_ino = i, st_dev = 1\<rparr>"

definition lnk :: "nat \<Rightarrow> stat_result" where
  "lnk i = \<lparr>st_mode = 41471, st_ino = i, st_dev = 1\<rparr>"

definition src :: "path \<Rightarrow> nat \<Rightarrow> int option \<Rightarrow> OrganizeSource" where
  "src p i t = \<lparr>abs_path = p, stat_result = reg i, stime_maybe = t\<rparr>"

text \<open>
  A world on two file systems, for evaluation: the file table of \<open>example_env\<close> together
  with the unlinks scheduled in the sync log. Every rename and every hard link from one
  file system to the other fails with \<^verbatim>\<open>EXDEV\<close>; a copy writes the bytes to a new inode on
  the other device; \<^verbatim>\<open>dsync.finish()\<close> runs the scheduled unlinks.
\<close>

definition two_fs_rename ::
  "path \<Rightarrow> path \<Rightarrow> bool \<Rightarrow> (path \<times> stat_result \<times> bytes) list \<times> path list
     \<Rightarrow> exn option \<times> ((path \<times> stat_result \<times> bytes) list \<times> path list)" where
  "two_fs_rename src_path dst_path allow_overwrites w = (Some (OSError EXDEV), w)"

definition two_fs_copy ::
  "path \<Rightarrow> path \<Rightarrow> bool \<Rightarrow> (path \<times> stat_result \<times> bytes) list \<times> path list
     \<Rightarrow> exn option \<times> ((path \<times> stat_result \<times> bytes) list \<times> path list)" where
  "two_fs_copy src_path dst_path allow_overwrites w =
     (case map_of (fst w) src_path of
        None \<Rightarrow> (Some (OSError ENOENT), w)
      | Some (st, d) \<Rightarrow>
          if \<not> allow_overwrites \<and> map_of (fst w) dst_path \<noteq> None
          then (Some (OSError EEXIST), w)
          else (None,
                (AList.update dst_path
                   (\<lparr>st_mode = st_mode st, st_ino = Suc (length (fst w)), st_dev = 2\<rparr>, d)
                   (fst w),
                 snd w)))"

definition two_fs_schedule_unlink ::
  "path \<Rightarrow> (path \<times> stat_result \<times> bytes) list \<times> path list
     \<Rightarrow> (path \<times> stat_result \<times> bytes) list \<times> path list" where
  "two_fs_schedule_unlink src_path w = (fst w, snd w @ [src_path])"

definition two_fs_env :: "((path \<times> stat_result \<times> bytes) list \<times> path list) os_env" where
  "two_fs_env =
     \<lparr>os_lstat = (\<lambda>w. os_lstat example_env (fst w)),
      os_stat = (\<lambda>w. os_stat example_env (fst w)),
      os_realpath = (\<lambda>w. os_realpath example_env (fst w)),
      os_read = (\<lambda>w. os_read example_env (fst w)),
      os_makedirs = (\<lambda>d w. (None, w)),
      os_abspath = (\<lambda>p. p),
      os_dirname = os_dirname example_env,
      atomic_op = (\<lambda>a. case a of
                     Move \<Rightarrow> atomic_move two_fs_rename two_fs_copy two_fs_schedule_unlink
                   | Copy \<Rightarrow> two_fs_copy
                   | Hardlink \<Rightarrow> two_fs_rename
                   | Symlink \<Rightarrow>
                       (\<lambda>src_path dst_path ex w.
                          case atomic_op example_env Symlink src_path dst_path ex (fst w) of
                            (r, fs) \<Rightarrow> (r, (fs, snd w)))),
      dsync_sync = (\<lambda>w. w),
      dsync_finish = (\<lambda>w. (fold AList.delete (snd w) (fst w), [])),
      wrr_load_stime = wrr_load_stime example_env,
      wrr_loadf_stime = (\<lambda>w. wrr_loadf_stime example_env (fst w))\<rparr>"

text \<open>
  What \<^verbatim>\<open>make_organize_emit\<close> computes under \<^verbatim>\<open>--keep\<close> for each action, and under
  \<^verbatim>\<open>--latest\<close> for the one action that admits it.
\<close>

definition keep_cfg :: "action \<Rightarrow> organize_cfg" where
  "keep_cfg a =
     \<lparr>action = a, actioning = (if a = Move then ''moving'' else action_name a @ ''ing''),
      moving = (a = Move), check_data = (a \<noteq> Symlink), symlinking = (a = Symlink),
      allow_updates = False\<rparr>"

definition latest_cfg :: organize_cfg where
  "latest_cfg =
     \<lparr>action = Symlink, actioning = ''updating symlink'', moving = False, check_data = False,
      symlinking = True, allow_updates = True\<rparr>"

text \<open>The default options of \<^verbatim>\<open>add_memory\<close>, reporting with a newline.\<close>

definition default_cargs :: cargs where
  "default_cargs =
     \<lparr>max_seen = 16384, max_cached = 8192, max_deferred = 1024, max_batched = 128,
      max_memory = 1024, terminator = Some [CHR 0x0A], quiet = False, dry_run = False,
      lazy = False, errors = ''fail''\<rparr>"

text \<open>
  Two records for evaluation: one whose template has \<^verbatim>\<open>%(num)d\<close>, one whose template
  does not vary. And a world with two input files.
\<close>

definition rr_num :: rrexpr where
  "rr_num =
     \<lparr>filters_allow = True,
      output_path = (\<lambda>n. if n = 0 then ''/out/x_0.wrr''
                         else if n = 1 then ''/out/x_1.wrr'' else ''/out/x_n.wrr'')\<rparr>"

definition rr_flat :: rrexpr where
  "rr_flat = \<lparr>filters_allow = True, output_path = (\<lambda>n. ''/out/x.wrr'')\<rparr>"

definition w0 :: "(path \<times> stat_result \<times> bytes) list" where
  "w0 = [(''/in/a.wrr'', reg 7, ''aaaa''), (''/in/b.wrr'', reg 8, ''bb'')]"

text \<open>
  The engine after one \<^verbatim>\<open>emit\<close> of \<^verbatim>\<open>/in/a.wrr\<close> under \<^verbatim>\<open>--copy\<close>, from the initial state,
  with the default options; and the same with \<^verbatim>\<open>--cache-number 0\<close>, where the
  \<^verbatim>\<open>flush_updates(False)\<close> that ends \<^verbatim>\<open>emit\<close> has emptied the source cache.
\<close>

definition engine_after_a :: "((path \<times> stat_result \<times> bytes) list) engine" where
  "engine_after_a =
     \<lparr>consumption = 342, seen_state = [(''/out/x_0.wrr'', 0)],
      deferred_intents =
        [(''/out/x_0.wrr'', \<lparr>source = src ''/in/a.wrr'' 7 (Some 5), exists = False\<rparr>)],
      source_cache = [(''/out/x_0.wrr'', src ''/in/a.wrr'' 7 (Some 5))],
      world = w0, trace = []\<rparr>"

definition engine_after_a_uncached :: "((path \<times> stat_result \<times> bytes) list) engine" where
  "engine_after_a_uncached =
     \<lparr>consumption = 193, seen_state = [(''/out/x_0.wrr'', 0)],
      deferred_intents =
        [(''/out/x_0.wrr'', \<lparr>source = src ''/in/a.wrr'' 7 (Some 5), exists = False\<rparr>)],
      source_cache = [],
      world = w0, trace = [DsyncSync, StdoutFlush, StdoutFsync, DsyncFinish]\<rparr>"

text \<open>
  A world where the destination of the flat template is taken by a file with other
  content, and the engine after the first turn of \<^verbatim>\<open>emit\<close>'s loop there under \<^verbatim>\<open>--copy\<close>:
  the turn was refused, and the file found at the destination is in the source cache.
\<close>

definition w_taken :: "(path \<times> stat_result \<times> bytes) list" where
  "w_taken = (''/out/x.wrr'', reg 9, ''zz'') # w0"

definition engine_refused :: "((path \<times> stat_result \<times> bytes) list) engine" where
  "engine_refused =
     \<lparr>consumption = 158, seen_state = [(''/out/x.wrr'', 0)], deferred_intents = [],
      source_cache =
        [(''/out/x.wrr'',
          \<lparr>abs_path = ''/out/x.wrr'', stat_result = reg 9, stime_maybe = None\<rparr>)],
      world = w_taken, trace = []\<rparr>"

section \<open>Theorems\<close>

subsection \<open>The seen counter\<close>

lemma count_other_key:
  "k \<noteq> v \<Longrightarrow> map_of (state (snd (count v sc))) k = map_of (state sc) k"
  by (simp add: count_def update_conv' split: option.splits)

lemma pop_other_key:
  "pop sc = Inr ((k', c), sc') \<Longrightarrow> k \<noteq> k' \<Longrightarrow> map_of (state sc') k = map_of (state sc) k"
  by (auto simp: pop_def split: list.splits)

lemma count_times_seen:
  "map_of (state sc) v = Some c \<Longrightarrow>
   fst (count_times n v sc) = map (\<lambda>i. c + 1 + int i) [0..<n] \<and>
   mem (snd (count_times n v sc)) = mem sc"
proof (induction n arbitrary: sc c)
  case 0
  then show ?case by simp
next
  case (Suc n)
  obtain sc' where c1: "count v sc = (c + 1, sc')" and m1: "mem sc' = mem sc"
    and s1: "map_of (state sc') v = Some (c + 1)"
    using Suc.prems by (simp add: count_def update_conv')
  have ih: "fst (count_times n v sc') = map (\<lambda>i. c + 1 + 1 + int i) [0..<n]"
    "mem (snd (count_times n v sc')) = mem sc'"
    using Suc.IH [OF s1] by simp_all
  have "map (\<lambda>i. c + 1 + int i) [0..<Suc n] =
        (c + 1) # map (\<lambda>i. c + 1 + 1 + int i) [0..<n]"
    by (simp add: upt_rec [of 0 "Suc n"] map_Suc_upt [symmetric] del: upt_Suc)
  then show ?case
    using c1 m1 ih by (simp add: split_beta del: upt_Suc)
qed

lemma count_calls:
  "(map_of (state sc) v = None \<longrightarrow>
      fst (count v sc) = 0 \<and> mem (snd (count v sc)) = mem sc + int (length v)) \<and>
   (\<forall>c. map_of (state sc) v = Some c \<longrightarrow>
      fst (count v sc) = c + 1 \<and> mem (snd (count v sc)) = mem sc) \<and>
   map_of (state (snd (count v sc))) v = Some (fst (count v sc)) \<and>
   (map_of (state sc) v = None \<longrightarrow>
      fst (count_times n v sc) = map int [0..<n] \<and>
      mem (snd (count_times n v sc)) = (if n = 0 then mem sc else mem sc + int (length v)))"
proof (intro conjI impI allI)
  assume a: "map_of (state sc) v = None"
  show "fst (count v sc) = 0" using a by (simp add: count_def)
  show "mem (snd (count v sc)) = mem sc + int (length v)" using a by (simp add: count_def)
  show "fst (count_times n v sc) = map int [0..<n]"
  proof (cases n)
    case 0
    then show ?thesis by simp
  next
    case (Suc m)
    obtain sc' where c1: "count v sc = (0, sc')" and s1: "map_of (state sc') v = Some 0"
      using a by (simp add: count_def update_conv')
    have "fst (count_times m v sc') = map (\<lambda>i. 0 + 1 + int i) [0..<m]"
      using count_times_seen [OF s1] by simp
    moreover have "map int [0..<Suc m] = 0 # map (\<lambda>i. 0 + 1 + int i) [0..<m]"
      by (simp add: upt_rec [of 0 "Suc m"] map_Suc_upt [symmetric] del: upt_Suc)
    ultimately show ?thesis using Suc c1 by (simp add: split_beta del: upt_Suc)
  qed
  show "mem (snd (count_times n v sc)) = (if n = 0 then mem sc else mem sc + int (length v))"
  proof (cases n)
    case 0
    then show ?thesis by simp
  next
    case (Suc m)
    obtain sc' where c1: "count v sc = (0, sc')" and s1: "map_of (state sc') v = Some 0"
      and m1: "mem sc' = mem sc + int (length v)"
      using a by (simp add: count_def update_conv')
    have "mem (snd (count_times m v sc')) = mem sc'"
      using count_times_seen [OF s1] by simp
    then show ?thesis using Suc c1 m1 by (simp add: split_beta)
  qed
next
  fix c assume a: "map_of (state sc) v = Some c"
  show "fst (count v sc) = c + 1" using a by (simp add: count_def)
  show "mem (snd (count v sc)) = mem sc" using a by (simp add: count_def)
next
  show "map_of (state (snd (count v sc))) v = Some (fst (count v sc))"
    by (simp add: count_def update_conv' split: option.splits)
qed

text \<open>
  C7. \<^verbatim>\<open>SeenCounter.count\<close>: a call for a key that is absent returns 0, enters the key and
  adds \<open>len(key)\<close> to the memory account; a call for a key that is present with value \<open>c\<close>
  returns \<open>c + 1\<close> and leaves the memory account alone; in both cases the value returned is
  the value stored, so the next call for the key returns one more, and a call for another
  key or a \<^verbatim>\<open>pop\<close> that evicts another key leaves the value stored for the key as it is.
  Of \<open>n\<close> consecutive calls that start with the key absent, the \<open>i\<close>-th (from 1) returns
  \<open>i - 1\<close>, the account growing by \<open>len(key)\<close> once.
\<close>

theorem count_semantics:
  "(map_of (state sc) v = None \<longrightarrow>
      fst (count v sc) = 0 \<and> mem (snd (count v sc)) = mem sc + int (length v)) \<and>
   (\<forall>c. map_of (state sc) v = Some c \<longrightarrow>
      fst (count v sc) = c + 1 \<and> mem (snd (count v sc)) = mem sc) \<and>
   map_of (state (snd (count v sc))) v = Some (fst (count v sc)) \<and>
   (\<forall>k. k \<noteq> v \<longrightarrow> map_of (state (snd (count k sc))) v = map_of (state sc) v) \<and>
   (\<forall>k c sc'. pop sc = Inr ((k, c), sc') \<and> k \<noteq> v \<longrightarrow>
      map_of (state sc') v = map_of (state sc) v) \<and>
   (map_of (state sc) v = None \<longrightarrow>
      fst (count_times n v sc) = map int [0..<n] \<and>
      mem (snd (count_times n v sc)) = (if n = 0 then mem sc else mem sc + int (length v)))"
proof -
  have other: "\<forall>k. k \<noteq> v \<longrightarrow> map_of (state (snd (count k sc))) v = map_of (state sc) v"
    by (auto simp: count_other_key)
  have popped: "\<forall>k c sc'. pop sc = Inr ((k, c), sc') \<and> k \<noteq> v \<longrightarrow>
      map_of (state sc') v = map_of (state sc) v"
    using pop_other_key [of sc _ _ _ v] by (intro allI impI) (elim conjE, simp)
  from count_calls [of sc v n] other popped show ?thesis
    by (elim conjE) (intro conjI; assumption)
qed

theorem count_semantics_witness:
  "fst (count ''a.wrr'' \<lparr>mem = 10, state = [(''b.wrr'', 3)]\<rparr>) = 0 \<and>
   mem (snd (count ''a.wrr'' \<lparr>mem = 10, state = [(''b.wrr'', 3)]\<rparr>)) = 15 \<and>
   fst (count ''b.wrr'' \<lparr>mem = 10, state = [(''b.wrr'', 3)]\<rparr>) = 4 \<and>
   mem (snd (count ''b.wrr'' \<lparr>mem = 10, state = [(''b.wrr'', 3)]\<rparr>)) = 10 \<and>
   map_of (state (snd (count ''a.wrr'' \<lparr>mem = 10, state = [(''b.wrr'', 3)]\<rparr>))) ''b.wrr''
     = Some 3 \<and>
   map_of (state \<lparr>mem = 5, state = [(''b.wrr'', 3)]\<rparr>) ''b.wrr'' = Some 3 \<and>
   fst (count_times 3 ''a.wrr'' \<lparr>mem = 10, state = [(''b.wrr'', 3)]\<rparr>) = [0, 1, 2] \<and>
   mem (snd (count_times 3 ''a.wrr'' \<lparr>mem = 10, state = [(''b.wrr'', 3)]\<rparr>)) = 15"
proof -
  let ?sc = "\<lparr>mem = 10, state = [(''b.wrr'', 3)]\<rparr>"
  let ?sc2 = "\<lparr>mem = 10, state = [(''c.wrr'', 0), (''b.wrr'', 3)]\<rparr>"
  have absent: "map_of (state ?sc) ''a.wrr'' = None"
    by simp
  have present: "map_of (state ?sc) ''b.wrr'' = Some 3" "map_of (state ?sc2) ''b.wrr'' = Some 3"
    by simp_all
  have ne: "''a.wrr'' \<noteq> ''b.wrr''" "''c.wrr'' \<noteq> ''b.wrr''"
    by simp_all
  have p: "pop ?sc2 = Inr ((''c.wrr'', 0), \<lparr>mem = 5, state = [(''b.wrr'', 3)]\<rparr>)"
    by (simp add: pop_def)
  have l: "map int [0..<3] = [0, 1, 2]"
    by (simp add: upt_rec)
  note t1 = count_semantics [of ?sc "''a.wrr''" 3]
  note t2 = count_semantics [of ?sc "''b.wrr''" 0]
  note t3 = count_semantics [of ?sc2 "''b.wrr''" 0]
  have f1: "map_of (state (snd (count ''a.wrr'' ?sc))) ''b.wrr'' = Some 3"
    using t2 ne(1) present(1) by simp
  have f2: "map_of (state \<lparr>mem = 5, state = [(''b.wrr'', 3)]\<rparr>) ''b.wrr'' = Some 3"
    using t3 ne(2) p present(2) by simp
  have f3: "fst (count ''a.wrr'' ?sc) = 0" "mem (snd (count ''a.wrr'' ?sc)) = 15"
    "fst (count_times 3 ''a.wrr'' ?sc) = [0, 1, 2]"
    "mem (snd (count_times 3 ''a.wrr'' ?sc)) = 15"
    using t1 absent l by simp_all
  have f4: "fst (count ''b.wrr'' ?sc) = 4" "mem (snd (count ''b.wrr'' ?sc)) = 10"
    using t2 present(1) by simp_all
  show ?thesis
    using f1 f2 f3 f4 by blast
qed

subsection \<open>Configurations\<close>

lemma make_organize_emit_flags:
  "make_organize_emit a allow = Inr cfg \<Longrightarrow>
     action cfg = a \<and> allow_updates cfg = allow \<and> moving cfg = (a = Move) \<and>
     check_data cfg = (a \<noteq> Symlink) \<and> symlinking cfg = (a = Symlink) \<and>
     (allow \<longrightarrow> a = Symlink)"
  by (cases a) (auto simp: make_organize_emit_def Let_def split: if_splits)

lemma make_organize_emit_keep: "make_organize_emit a False = Inr (keep_cfg a)"
  by (cases a) (simp_all add: make_organize_emit_def keep_cfg_def)

lemma make_organize_emit_latest: "make_organize_emit Symlink True = Inr latest_cfg"
  by (simp add: make_organize_emit_def latest_cfg_def)

lemma S_ISLNK_examples: "S_ISLNK 41471" "\<not> S_ISLNK 33188"
  by (simp_all add: S_ISLNK_def)

lemmas eval_defs =
  emit_def emit_iteration_def emit_attempt_def reinstate_def count_def OrganizeIntent_defer_def
  defer_from_old_def update_from_def update_from_stime_def file_content_equals_def
  fileobj_content_equals_def flush_updates_def complete_intent_def run_def report_done_def
  finish_updates_def pop_def init_engine_def example_env_def keep_cfg_def default_cargs_def
  src_def reg_def w0_def rr_num_def rr_flat_def is_FileNotFoundError_def is_FileExistsError_def
  approx_size_def intent_approx_size_def intent_format_source_def format_source_def
  samestat_def ENOENT_def EEXIST_def EXDEV_def ENAMETOOLONG_def S_ISLNK_examples Let_def
  variance_failure_def elaborate_def engine_after_a_def engine_after_a_uncached_def
  w_taken_def engine_refused_def

subsection \<open>\<^verbatim>\<open>file_content_equals\<close>\<close>

text \<open>
  C10. \<^verbatim>\<open>file_content_equals(path, data)\<close> returns \<^verbatim>\<open>False\<close>, and does not raise, when there
  is no file at \<open>path\<close>; when the file can be read it returns whether its whole contents
  equal \<open>data\<close>. Hence \<^verbatim>\<open>update_from\<close>, for an action that compares data, goes on with a
  vanished new source as it does with one whose contents differ: to the part from
  \<^verbatim>\<open>if not allow_updates\<close> on, which without \<^verbatim>\<open>--latest\<close> answers \<open>(old, False)\<close>.
\<close>

theorem file_content_equals_vanished:
  "(os_read env w p = Inl (OSError ENOENT) \<longrightarrow> file_content_equals env w p data = Inr False) \<and>
   (\<forall>fdata. os_read env w p = Inr fdata \<longrightarrow>
      file_content_equals env w p data = Inr (fdata = data)) \<and>
   (check_data cfg \<and> \<not> symlinking cfg \<and>
    \<not> samestat (stat_result (source self)) (stat_result new_source) \<and>
    os_read env w (abs_path (source self)) = Inr disk_data \<and>
    os_read env w (abs_path new_source) = Inl (OSError ENOENT) \<longrightarrow>
      update_from env w cfg self new_source =
        update_from_stime env w cfg self new_source (Some disk_data) \<and>
      (\<not> allow_updates cfg \<longrightarrow> update_from env w cfg self new_source = Inr (self, True, False)))"
  by (simp add: file_content_equals_def fileobj_content_equals_def is_FileNotFoundError_def
      update_from_def update_from_stime_def)

theorem file_content_equals_vanished_witness:
  "file_content_equals example_env [(''/out/x.wrr'', reg 3, ''old'')] ''/in/gone.wrr'' ''old''
     = Inr False \<and>
   file_content_equals example_env [(''/out/x.wrr'', reg 3, ''old'')] ''/out/x.wrr'' ''old''
     = Inr True \<and>
   update_from example_env [(''/out/x.wrr'', reg 3, ''old'')] (keep_cfg Copy)
     \<lparr>source = src ''/out/x.wrr'' 3 None, exists = True\<rparr> (src ''/in/gone.wrr'' 7 (Some 5))
     = Inr (\<lparr>source = src ''/out/x.wrr'' 3 None, exists = True\<rparr>, True, False)"
proof -
  let ?w = "[(''/out/x.wrr'', reg 3, ''old'')]"
  have gone: "os_read example_env ?w ''/in/gone.wrr'' = Inl (OSError ENOENT)"
    by (simp add: example_env_def)
  have there: "os_read example_env ?w ''/out/x.wrr'' = Inr ''old''"
    by (simp add: example_env_def reg_def S_ISLNK_examples)
  have hyp: "check_data (keep_cfg Copy) \<and> \<not> symlinking (keep_cfg Copy) \<and>
      \<not> samestat (stat_result (source \<lparr>source = src ''/out/x.wrr'' 3 None, exists = True\<rparr>))
          (stat_result (src ''/in/gone.wrr'' 7 (Some 5))) \<and>
      os_read example_env ?w
        (abs_path (source \<lparr>source = src ''/out/x.wrr'' 3 None, exists = True\<rparr>)) = Inr ''old'' \<and>
      os_read example_env ?w (abs_path (src ''/in/gone.wrr'' 7 (Some 5))) = Inl (OSError ENOENT)"
    using gone there by (simp add: keep_cfg_def samestat_def src_def reg_def)
  have k: "\<not> allow_updates (keep_cfg Copy)"
    by (simp add: keep_cfg_def)
  show ?thesis
    using file_content_equals_vanished [of example_env ?w "''/in/gone.wrr''" "''old''"
        "keep_cfg Copy" "\<lparr>source = src ''/out/x.wrr'' 3 None, exists = True\<rparr>"
        "src ''/in/gone.wrr'' 7 (Some 5)" "''old''"]
      file_content_equals_vanished [of example_env ?w "''/out/x.wrr''" "''old''"
        "keep_cfg Copy" "\<lparr>source = src ''/out/x.wrr'' 3 None, exists = True\<rparr>"
        "src ''/in/gone.wrr'' 7 (Some 5)" "''old''"]
      gone there hyp k
    by simp
qed

subsection \<open>\<^verbatim>\<open>update_from\<close>\<close>

text \<open>
  C5, as the code has it. For \<^verbatim>\<open>move\<close>, \<^verbatim>\<open>copy\<close> and \<^verbatim>\<open>hardlink\<close>, \<^verbatim>\<open>update_from\<close> with a
  new source whose stat record denotes the inode of the current source is a no-op: the
  old source, \<open>permitted = True\<close>. For \<^verbatim>\<open>symlink\<close> the stat records are not compared
  (\<^verbatim>\<open>check_data\<close> is false): the no-op is for a new source with the same path, and a new
  source with another path goes on to the part from \<^verbatim>\<open>if not allow_updates\<close> on, whatever
  its inode.
\<close>

theorem update_from_samestat:
  assumes "make_organize_emit a allow = Inr cfg"
  shows "(a \<noteq> Symlink \<and> samestat (stat_result (source self)) (stat_result new_source) \<longrightarrow>
            update_from env w cfg self new_source = Inr (self, True, True)) \<and>
         (a = Symlink \<and> abs_path (source self) = abs_path new_source \<longrightarrow>
            update_from env w cfg self new_source = Inr (self, True, True)) \<and>
         (a = Symlink \<and> abs_path (source self) \<noteq> abs_path new_source \<longrightarrow>
            update_from env w cfg self new_source =
              update_from_stime env w cfg self new_source None)"
  using make_organize_emit_flags [OF assms] by (simp add: update_from_def)

theorem update_from_samestat_witness:
  "update_from example_env [] (keep_cfg Copy)
     \<lparr>source = src ''/in/a.wrr'' 7 None, exists = True\<rparr> (src ''/in/b.wrr'' 7 (Some 5))
   = Inr (\<lparr>source = src ''/in/a.wrr'' 7 None, exists = True\<rparr>, True, True) \<and>
   update_from example_env [] (keep_cfg Symlink)
     \<lparr>source = src ''/in/a.wrr'' 7 None, exists = True\<rparr> (src ''/in/a.wrr'' 8 (Some 5))
   = Inr (\<lparr>source = src ''/in/a.wrr'' 7 None, exists = True\<rparr>, True, True) \<and>
   update_from example_env [] (keep_cfg Symlink)
     \<lparr>source = src ''/in/a.wrr'' 7 None, exists = True\<rparr> (src ''/in/b.wrr'' 7 (Some 5))
   = update_from_stime example_env [] (keep_cfg Symlink)
     \<lparr>source = src ''/in/a.wrr'' 7 None, exists = True\<rparr> (src ''/in/b.wrr'' 7 (Some 5)) None"
proof -
  let ?self = "\<lparr>source = src ''/in/a.wrr'' 7 None, exists = True\<rparr>"
  have m: "samestat (stat_result (source ?self)) (stat_result (src ''/in/b.wrr'' 7 (Some 5)))"
    by (simp add: samestat_def src_def reg_def)
  have p: "abs_path (source ?self) = abs_path (src ''/in/a.wrr'' 8 (Some 5))"
     "abs_path (source ?self) \<noteq> abs_path (src ''/in/b.wrr'' 7 (Some 5))"
    by (simp_all add: src_def)
  show ?thesis
    using update_from_samestat [OF make_organize_emit_keep [of Copy], of ?self
        "src ''/in/b.wrr'' 7 (Some 5)" example_env "[]"]
      update_from_samestat [OF make_organize_emit_keep [of Symlink], of ?self
        "src ''/in/a.wrr'' 8 (Some 5)" example_env "[]"]
      update_from_samestat [OF make_organize_emit_keep [of Symlink], of ?self
        "src ''/in/b.wrr'' 7 (Some 5)" example_env "[]"]
      m p by simp
qed

text \<open>
  C5 as stated fails for \<^verbatim>\<open>symlink\<close>: under \<^verbatim>\<open>--symlink --keep\<close>, a new source at another
  path with the inode of the current source is refused (\<open>permitted = False\<close>).
\<close>

theorem update_from_samestat_counterexample:
  "make_organize_emit Symlink False = Inr (keep_cfg Symlink) \<and>
   samestat (stat_result (src ''/in/a.wrr'' 7 None)) (stat_result (src ''/in/b.wrr'' 7 (Some 5))) \<and>
   update_from example_env [] (keep_cfg Symlink)
     \<lparr>source = src ''/in/a.wrr'' 7 None, exists = True\<rparr> (src ''/in/b.wrr'' 7 (Some 5))
   = Inr (\<lparr>source = src ''/in/a.wrr'' 7 None, exists = True\<rparr>, True, False)"
  by (simp add: make_organize_emit_keep keep_cfg_def samestat_def src_def reg_def
      update_from_def update_from_stime_def)

text \<open>
  C3. Let the new source's content differ from the old one's: both files can be read and
  their bytes differ (the stat records being truthful: two records of one inode belong
  to files with the same bytes). Then without \<^verbatim>\<open>allow_updates\<close>, \<^verbatim>\<open>update_from\<close> returns
  \<open>(old, False)\<close>; with \<^verbatim>\<open>allow_updates\<close> it returns \<open>permitted = True\<close>, and the source
  returned is the new one exactly when \<open>old.stime < new.stime\<close>, the old one (with its
  source time now cached) otherwise. The source times are what \<^verbatim>\<open>get_stime\<close> returns.
\<close>

theorem update_from_differs:
  assumes truthful: "samestat (stat_result (source self)) (stat_result new_source) \<longrightarrow>
             os_read env w (abs_path new_source) = os_read env w (abs_path (source self))"
    and old_data: "os_read env w (abs_path (source self)) = Inr d"
    and new_data: "os_read env w (abs_path new_source) = Inr d'"
    and differs: "d' \<noteq> d"
  shows "(\<not> allow_updates cfg \<longrightarrow>
            update_from env w cfg self new_source = Inr (self, True, False)) \<and>
         (\<forall>t_old old' t_new new'.
            allow_updates cfg \<and>
            get_stime env w (source self) (if check_data cfg then Some d else None)
              = (Inr t_old, old') \<and>
            get_stime env w new_source None = (Inr t_new, new') \<longrightarrow>
            update_from env w cfg self new_source =
              (if t_old < t_new then Inr (self\<lparr>source := new'\<rparr>, False, True)
               else Inr (self\<lparr>source := old'\<rparr>, True, True)))"
proof -
  have p: "abs_path (source self) \<noteq> abs_path new_source"
    using old_data new_data differs by auto
  have s: "\<not> samestat (stat_result (source self)) (stat_result new_source)"
    using truthful old_data new_data differs by auto
  have f: "file_content_equals env w (abs_path new_source) d = Inr False"
    using new_data differs by (simp add: file_content_equals_def fileobj_content_equals_def)
  have u: "update_from env w cfg self new_source =
           update_from_stime env w cfg self new_source (if check_data cfg then Some d else None)"
    using p s f old_data by (simp add: update_from_def)
  show ?thesis
    unfolding u by (simp add: update_from_stime_def)
qed

theorem update_from_differs_witness:
  "update_from example_env [(''/in/a.wrr'', reg 7, ''aaaa''), (''/in/b.wrr'', reg 8, ''bb'')]
     (keep_cfg Copy) \<lparr>source = src ''/in/a.wrr'' 7 None, exists = True\<rparr>
     (src ''/in/b.wrr'' 8 (Some 9))
   = Inr (\<lparr>source = src ''/in/a.wrr'' 7 None, exists = True\<rparr>, True, False) \<and>
   update_from example_env [(''/in/a.wrr'', reg 7, ''aaaa''), (''/in/b.wrr'', reg 8, ''bb'')]
     latest_cfg \<lparr>source = src ''/in/a.wrr'' 7 None, exists = True\<rparr>
     (src ''/in/b.wrr'' 8 (Some 9))
   = Inr (\<lparr>source = src ''/in/b.wrr'' 8 (Some 9), exists = True\<rparr>, False, True) \<and>
   update_from example_env [(''/in/a.wrr'', reg 7, ''aaaa''), (''/in/b.wrr'', reg 8, ''bb'')]
     latest_cfg \<lparr>source = src ''/in/a.wrr'' 7 None, exists = True\<rparr>
     (src ''/in/b.wrr'' 8 (Some 4))
   = Inr (\<lparr>source = src ''/in/a.wrr'' 7 (Some 4), exists = True\<rparr>, True, True)"
proof -
  let ?w = "[(''/in/a.wrr'', reg 7, ''aaaa''), (''/in/b.wrr'', reg 8, ''bb'')]"
  let ?self = "\<lparr>source = src ''/in/a.wrr'' 7 None, exists = True\<rparr>"
  have t: "\<And>t. samestat (stat_result (source ?self)) (stat_result (src ''/in/b.wrr'' 8 t)) \<longrightarrow>
      os_read example_env ?w (abs_path (src ''/in/b.wrr'' 8 t))
        = os_read example_env ?w (abs_path (source ?self))"
    by (simp add: samestat_def src_def reg_def)
  have o: "os_read example_env ?w (abs_path (source ?self)) = Inr ''aaaa''"
    by (simp add: example_env_def src_def reg_def S_ISLNK_examples)
  have n: "\<And>t. os_read example_env ?w (abs_path (src ''/in/b.wrr'' 8 t)) = Inr ''bb''"
    by (simp add: example_env_def src_def reg_def S_ISLNK_examples)
  have d: "''bb'' \<noteq> ''aaaa''"
    by simp
  have k: "\<not> allow_updates (keep_cfg Copy)" "allow_updates latest_cfg"
    by (simp_all add: keep_cfg_def latest_cfg_def)
  have g_old: "get_stime example_env ?w (source ?self)
                 (if check_data latest_cfg then Some ''aaaa'' else None)
               = (Inr 4, src ''/in/a.wrr'' 7 (Some 4))"
    by (simp add: get_stime_def latest_cfg_def example_env_def src_def)
  have g_new: "\<And>t. get_stime example_env ?w (src ''/in/b.wrr'' 8 (Some t)) None
               = (Inr t, src ''/in/b.wrr'' 8 (Some t))"
    by (simp add: get_stime_def src_def)
  show ?thesis
    using update_from_differs [OF t [of "Some 9"] o n [of "Some 9"] d, where cfg = "keep_cfg Copy"]
      update_from_differs [OF t [of "Some 9"] o n [of "Some 9"] d, where cfg = latest_cfg]
      update_from_differs [OF t [of "Some 4"] o n [of "Some 4"] d, where cfg = latest_cfg]
      k g_old g_new
    by simp
qed

subsection \<open>\<^verbatim>\<open>OrganizeIntent.defer\<close> on a destination that is a symbolic link\<close>

text \<open>
  C6, as the code has it. Let \<^verbatim>\<open>defer\<close> be called with no cached old source, for a new
  source that is not the destination itself, and let \<^verbatim>\<open>lstat\<close> show a symbolic link at
  the destination. If the link's target can be reached (\<^verbatim>\<open>stat\<close> succeeds), every action
  but \<^verbatim>\<open>symlink\<close> is refused with a diagnostic, and \<^verbatim>\<open>symlink\<close> goes on with the old source
  \<open>(realpath(destination), stat(destination), no source time)\<close>. If the link is broken
  (\<^verbatim>\<open>stat\<close> finds no file), every action, \<^verbatim>\<open>symlink\<close> or not, gets an intent that replaces
  the link with the new source, \<open>permitted = True\<close>.
\<close>

theorem defer_symlink_destination:
  assumes "abs_path new_source \<noteq> abs_out_path"
    and "os_lstat env w abs_out_path = Inr out_lstat"
    and "S_ISLNK (st_mode out_lstat)"
  shows "(\<forall>out_stat. os_stat env w abs_out_path = Inr out_stat \<longrightarrow>
            (\<not> symlinking cfg \<longrightarrow>
               OrganizeIntent_defer env w cfg abs_out_path None new_source =
                 Inl (Failure (''`--'' @ action_name (action cfg) @ ''` is set but `''
                        @ abs_out_path @ ''` exists and is a symlink'' @ not_allowed) [])) \<and>
            (symlinking cfg \<longrightarrow>
               OrganizeIntent_defer env w cfg abs_out_path None new_source =
                 defer_from_old env w cfg
                   \<lparr>abs_path = os_realpath env w abs_out_path, stat_result = out_stat,
                    stime_maybe = None\<rparr> new_source)) \<and>
         (os_stat env w abs_out_path = Inl (OSError ENOENT) \<longrightarrow>
            OrganizeIntent_defer env w cfg abs_out_path None new_source =
              Inr (Some \<lparr>source = new_source, exists = True\<rparr>, Some new_source, True))"
  using assms by (simp add: OrganizeIntent_defer_def is_FileNotFoundError_def)

theorem defer_symlink_destination_witness:
  "OrganizeIntent_defer example_env
     [(''/out/x.wrr'', lnk 9, ''/in/a.wrr''), (''/in/a.wrr'', reg 7, ''aaaa'')]
     (keep_cfg Copy) ''/out/x.wrr'' None (src ''/in/b.wrr'' 8 (Some 5))
   = Inl (Failure (''`--copy` is set but `/out/x.wrr` exists and is a symlink'' @ not_allowed) [])
   \<and>
   OrganizeIntent_defer example_env
     [(''/out/x.wrr'', lnk 9, ''/in/a.wrr''), (''/in/a.wrr'', reg 7, ''aaaa'')]
     (keep_cfg Symlink) ''/out/x.wrr'' None (src ''/in/b.wrr'' 8 (Some 5))
   = defer_from_old example_env
       [(''/out/x.wrr'', lnk 9, ''/in/a.wrr''), (''/in/a.wrr'', reg 7, ''aaaa'')]
       (keep_cfg Symlink) (src ''/in/a.wrr'' 7 None) (src ''/in/b.wrr'' 8 (Some 5))
   \<and>
   OrganizeIntent_defer example_env [(''/out/x.wrr'', lnk 9, ''/in/gone.wrr'')]
     (keep_cfg Symlink) ''/out/x.wrr'' None (src ''/in/b.wrr'' 8 (Some 5))
   = Inr (Some \<lparr>source = src ''/in/b.wrr'' 8 (Some 5), exists = True\<rparr>,
          Some (src ''/in/b.wrr'' 8 (Some 5)), True)"
proof -
  let ?w = "[(''/out/x.wrr'', lnk 9, ''/in/a.wrr''), (''/in/a.wrr'', reg 7, ''aaaa'')]"
  let ?b = "[(''/out/x.wrr'', lnk 9, ''/in/gone.wrr'')]"
  let ?new = "src ''/in/b.wrr'' 8 (Some 5)"
  have ne: "abs_path ?new \<noteq> ''/out/x.wrr''"
    by (simp add: src_def)
  have l: "os_lstat example_env ?w ''/out/x.wrr'' = Inr (lnk 9)"
    "os_lstat example_env ?b ''/out/x.wrr'' = Inr (lnk 9)"
    by (simp_all add: example_env_def)
  have m: "S_ISLNK (st_mode (lnk 9))"
    by (simp add: lnk_def S_ISLNK_examples)
  have st: "os_stat example_env ?w ''/out/x.wrr'' = Inr (reg 7)"
    "os_stat example_env ?b ''/out/x.wrr'' = Inl (OSError ENOENT)"
    by (simp_all add: example_env_def lnk_def S_ISLNK_examples)
  have rp: "os_realpath example_env ?w ''/out/x.wrr'' = ''/in/a.wrr''"
    by (simp add: example_env_def lnk_def S_ISLNK_examples)
  have k: "\<not> symlinking (keep_cfg Copy)" "symlinking (keep_cfg Symlink)"
    "action (keep_cfg Copy) = Copy"
    by (simp_all add: keep_cfg_def)
  show ?thesis
    using defer_symlink_destination [OF ne l(1) m, of "keep_cfg Copy"]
      defer_symlink_destination [OF ne l(1) m, of "keep_cfg Symlink"]
      defer_symlink_destination [OF ne l(2) m, of "keep_cfg Symlink"]
      st rp k
    by (simp add: src_def)
qed

text \<open>
  C6 as stated fails on a broken link: under \<^verbatim>\<open>--move\<close>, a destination that is a symbolic
  link to a file that is not there is not refused; \<^verbatim>\<open>defer\<close> returns an intent to replace
  it.
\<close>

theorem defer_symlink_destination_counterexample:
  "make_organize_emit Move False = Inr (keep_cfg Move) \<and>
   os_lstat example_env [(''/out/x.wrr'', lnk 9, ''/in/gone.wrr'')] ''/out/x.wrr'' = Inr (lnk 9) \<and>
   S_ISLNK (st_mode (lnk 9)) \<and>
   OrganizeIntent_defer example_env [(''/out/x.wrr'', lnk 9, ''/in/gone.wrr'')] (keep_cfg Move)
     ''/out/x.wrr'' None (src ''/in/a.wrr'' 7 (Some 5))
   = Inr (Some \<lparr>source = src ''/in/a.wrr'' 7 (Some 5), exists = True\<rparr>,
          Some (src ''/in/a.wrr'' 7 (Some 5)), True)"
  by (simp add: make_organize_emit_keep OrganizeIntent_defer_def example_env_def
      lnk_def src_def is_FileNotFoundError_def S_ISLNK_examples)

subsection \<open>\<^verbatim>\<open>OrganizeIntent.run\<close> across file systems\<close>

text \<open>
  C2. Let the action be \<^verbatim>\<open>move\<close>, its operation the \<^verbatim>\<open>atomic_move\<close> of the specification,
  and let the rename fail with \<^verbatim>\<open>EXDEV\<close>. Then \<^verbatim>\<open>run\<close> does not raise: the data is copied
  (the copy succeeding), an unlink of the source is scheduled in the sync log, and \<^verbatim>\<open>run\<close>
  returns the source. The world it leaves is that of the copy with the unlink scheduled;
  so when the copy has put the data at the destination, and scheduling touches no file,
  the destination holds the data.
\<close>

theorem run_move_EXDEV:
  assumes "make_organize_emit Move allow = Inr cfg"
    and "atomic_op env Move = atomic_move rename_op copy_op schedule_unlink"
    and "abs_path (source self) \<noteq> abs_out_path"
    and "os_makedirs env (os_dirname env abs_out_path) w = (None, w1)"
    and "rename_op (abs_path (source self)) abs_out_path (exists self) w1
           = (Some (OSError EXDEV), w2)"
    and "copy_op (abs_path (source self)) abs_out_path (exists self) w2 = (None, w3)"
  shows "run env cfg self abs_out_path False w
           = (Inr (source self), schedule_unlink (abs_path (source self)) w3) \<and>
         (os_read env w3 abs_out_path = Inr data \<and>
          (\<forall>p. os_read env (schedule_unlink (abs_path (source self)) w3) p = os_read env w3 p)
          \<longrightarrow> os_read env (snd (run env cfg self abs_out_path False w)) abs_out_path
                = Inr data)"
proof -
  have a: "action cfg = Move"
    using make_organize_emit_flags [OF assms(1)] by simp
  have op: "atomic_op env (action cfg) (abs_path (source self)) abs_out_path (exists self) w1
      = (None, schedule_unlink (abs_path (source self)) w3)"
    using assms(2,5,6) a by (simp add: atomic_move_def)
  have r: "run env cfg self abs_out_path False w
           = (Inr (source self), schedule_unlink (abs_path (source self)) w3)"
    using assms(3,4) op by (simp add: run_def)
  show ?thesis
    using r by simp
qed

theorem run_move_EXDEV_witness:
  "run two_fs_env (keep_cfg Move) \<lparr>source = src ''/in/a.wrr'' 7 (Some 5), exists = False\<rparr>
     ''/mnt/out/x.wrr'' False ([(''/in/a.wrr'', reg 7, ''data'')], [])
   = (Inr (src ''/in/a.wrr'' 7 (Some 5)),
      ([(''/in/a.wrr'', reg 7, ''data''),
        (''/mnt/out/x.wrr'', \<lparr>st_mode = 33188, st_ino = 2, st_dev = 2\<rparr>, ''data'')],
       [''/in/a.wrr''])) \<and>
   os_read two_fs_env
     (snd (run two_fs_env (keep_cfg Move)
             \<lparr>source = src ''/in/a.wrr'' 7 (Some 5), exists = False\<rparr>
             ''/mnt/out/x.wrr'' False ([(''/in/a.wrr'', reg 7, ''data'')], [])))
     ''/mnt/out/x.wrr'' = Inr ''data'' \<and>
   dsync_finish two_fs_env
     ([(''/in/a.wrr'', reg 7, ''data''),
       (''/mnt/out/x.wrr'', \<lparr>st_mode = 33188, st_ino = 2, st_dev = 2\<rparr>, ''data'')],
      [''/in/a.wrr''])
   = ([(''/mnt/out/x.wrr'', \<lparr>st_mode = 33188, st_ino = 2, st_dev = 2\<rparr>, ''data'')], [])"
proof -
  let ?w = "([(''/in/a.wrr'', reg 7, ''data'')], [])
            :: (path \<times> stat_result \<times> bytes) list \<times> path list"
  let ?w3 = "([(''/in/a.wrr'', reg 7, ''data''),
               (''/mnt/out/x.wrr'', \<lparr>st_mode = 33188, st_ino = 2, st_dev = 2\<rparr>, ''data'')], [])
             :: (path \<times> stat_result \<times> bytes) list \<times> path list"
  let ?self = "\<lparr>source = src ''/in/a.wrr'' 7 (Some 5), exists = False\<rparr>"
  have op: "atomic_op two_fs_env Move
              = atomic_move two_fs_rename two_fs_copy two_fs_schedule_unlink"
    by (simp add: two_fs_env_def)
  have ne: "abs_path (source ?self) \<noteq> ''/mnt/out/x.wrr''"
    by (simp add: src_def)
  have mk: "os_makedirs two_fs_env (os_dirname two_fs_env ''/mnt/out/x.wrr'') ?w = (None, ?w)"
    by (simp add: two_fs_env_def)
  have rn: "two_fs_rename (abs_path (source ?self)) ''/mnt/out/x.wrr'' (exists ?self) ?w
              = (Some (OSError EXDEV), ?w)"
    by (simp add: two_fs_rename_def)
  have cp: "two_fs_copy (abs_path (source ?self)) ''/mnt/out/x.wrr'' (exists ?self) ?w
              = (None, ?w3)"
    by (simp add: two_fs_copy_def src_def reg_def)
  have su: "two_fs_schedule_unlink (abs_path (source ?self)) ?w3 = (fst ?w3, [''/in/a.wrr''])"
    by (simp add: two_fs_schedule_unlink_def src_def)
  have rd: "os_read two_fs_env ?w3 ''/mnt/out/x.wrr'' = Inr ''data''"
    by (simp add: two_fs_env_def example_env_def reg_def S_ISLNK_examples)
  have fr: "\<forall>p. os_read two_fs_env (two_fs_schedule_unlink (abs_path (source ?self)) ?w3) p
              = os_read two_fs_env ?w3 p"
    by (simp add: two_fs_env_def two_fs_schedule_unlink_def)
  have fin: "dsync_finish two_fs_env (fst ?w3, [''/in/a.wrr''])
      = ([(''/mnt/out/x.wrr'', \<lparr>st_mode = 33188, st_ino = 2, st_dev = 2\<rparr>, ''data'')], [])"
    by (simp add: two_fs_env_def AList.delete_eq)
  note t = run_move_EXDEV [OF make_organize_emit_keep [of Move] op ne mk rn cp,
      where data = "''data''"]
  show ?thesis
    using t rd fr su fin by simp
qed

subsection \<open>The memory account is kept\<close>

lemma sum_delete:
  fixes f :: "'k \<times> 'v \<Rightarrow> int"
  shows "distinct (map fst xs) \<Longrightarrow> map_of xs k = Some v \<Longrightarrow>
    sum_list (map f (AList.delete k xs)) = sum_list (map f xs) - f (k, v)"
proof (induction xs)
  case Nil
  then show ?case by simp
next
  case (Cons x xs)
  obtain k' v' where x: "x = (k', v')" by (cases x)
  show ?case
  proof (cases "k' = k")
    case True
    then have "k \<notin> fst ` set xs" using Cons.prems x by auto
    then have "AList.delete k xs = xs"
      by (induction xs) (auto simp: AList.delete_eq)
    then show ?thesis using True Cons.prems x by (simp add: AList.delete_eq)
  next
    case False
    then show ?thesis using Cons x by (simp add: AList.delete_eq)
  qed
qed

lemma sum_update_absent:
  fixes f :: "'k \<times> 'v \<Rightarrow> int"
  shows "map_of xs k = None \<Longrightarrow>
    sum_list (map f (AList.update k v xs)) = sum_list (map f xs) + f (k, v)"
  by (induction xs) (auto split: if_splits)

lemma sum_update_present:
  fixes f :: "'k \<times> 'v \<Rightarrow> int"
  shows "map_of xs k = Some v' \<Longrightarrow>
    sum_list (map f (AList.update k v xs)) = sum_list (map f xs) - f (k, v') + f (k, v)"
  by (induction xs) (auto split: if_splits)

lemma map_of_delete_same: "map_of (AList.delete k xs) k = None"
  by (simp add: AList.delete_conv')

lemma count_accounted:
  assumes "accounted st"
    and "count v \<lparr>mem = consumption st, state = seen_state st\<rparr> = (num, sc)"
  shows "accounted (st\<lparr>consumption := mem sc, seen_state := state sc\<rparr>)"
proof (cases "map_of (seen_state st) v")
  case None
  then have "sc = \<lparr>mem = consumption st + int (length v), state = AList.update v 0 (seen_state st)\<rparr>"
    using assms(2) by (auto simp: count_def)
  then show ?thesis
    using assms(1) None
    by (simp add: accounted_def seen_size_def sum_update_absent distinct_update)
next
  case (Some c)
  then have "sc = \<lparr>mem = consumption st, state = AList.update v (c + 1) (seen_state st)\<rparr>"
    using assms(2) by (auto simp: count_def)
  then show ?thesis
    using assms(1) Some
    by (simp add: accounted_def seen_size_def sum_update_present distinct_update)
qed

lemma pop_accounted:
  assumes "accounted st"
    and "pop \<lparr>mem = consumption st, state = seen_state st\<rparr> = Inr ((k, c), sc)"
  shows "accounted (st\<lparr>consumption := mem sc, seen_state := state sc\<rparr>)"
  using assms by (auto simp: pop_def accounted_def seen_size_def split: list.splits)



lemma emit_attempt_accounted:
  assumes "accounted st" and "emit_attempt env cfg new_source abs_out_path st = (r, st1)"
  shows "accounted st1 \<and> map_of (source_cache st1) abs_out_path = None \<and>
         map_of (deferred_intents st1) abs_out_path = None \<and> world st1 = world st \<and>
         trace st1 = trace st"
proof -
  define st' where "st' = (case map_of (source_cache st) abs_out_path of
               None \<Rightarrow> st
             | Some old \<Rightarrow>
                  st\<lparr>source_cache := AList.delete abs_out_path (source_cache st),
                     consumption := consumption st
                       - (approx_size old + int (length abs_out_path))\<rparr>)"
  have a': "accounted st'" and c': "map_of (source_cache st') abs_out_path = None"
    and w': "world st' = world st" "trace st' = trace st"
    and d': "deferred_intents st' = deferred_intents st"
    using assms(1)
    by (auto simp: st'_def accounted_def cache_size_def sum_delete distinct_delete
        map_of_delete_same split: option.splits)
  show ?thesis
  proof (cases "map_of (deferred_intents st') abs_out_path")
    case None
    then have "st1 = st'"
      using assms(2) d' by (auto simp: emit_attempt_def st'_def split: option.splits)
    then show ?thesis using a' c' w' None by simp
  next
    case (Some intent)
    then have "st1 = st'\<lparr>deferred_intents := AList.delete abs_out_path (deferred_intents st'),
                           consumption := consumption st'
                             - (intent_approx_size intent + int (length abs_out_path))\<rparr>"
      using assms(2) d'
      by (auto simp: emit_attempt_def st'_def Let_def split: option.splits sum.splits)
    then show ?thesis
      using a' c' w' Some
      by (simp add: accounted_def intents_size_def sum_delete distinct_delete map_of_delete_same)
  qed
qed

lemma reinstate_accounted:
  assumes "accounted st" and "map_of (source_cache st) abs_out_path = None"
    and "map_of (deferred_intents st) abs_out_path = None"
  shows "accounted (reinstate abs_out_path intent updated_source st)"
  using assms
  by (cases intent; cases updated_source)
     (simp_all add: reinstate_def accounted_def cache_size_def intents_size_def
        sum_update_absent distinct_update)

lemma complete_intent_ok:
  assumes "run env cfg i p (dry_run ca) (world st) = (Inr u, w')"
  shows "complete_intent env ca cfg p i (d, st) =
     (None, map_option (\<lambda>fs. fs @ [p]) d,
      st\<lparr>consumption := consumption st - (intent_approx_size i + int (length p))
             - (case map_of (source_cache st) p of
                  None \<Rightarrow> 0
                | Some old \<Rightarrow> approx_size old + int (length p))
             + (approx_size u + int (length p)),
          source_cache := AList.update p u (source_cache st),
          world := w',
          trace := trace st @
            (if quiet ca then []
             else [StderrAction
                     (if dry_run ca then ''dry-run: (not) '' @ actioning cfg else actioning cfg)
                     (intent_format_source i) p])\<rparr>)"
  using assms
  by (cases "quiet ca"; cases "map_of (source_cache st) p")
     (simp_all add: complete_intent_def Let_def)

lemma complete_intent_err:
  assumes "run env cfg i p (dry_run ca) (world st) = (Inl exc, w')"
  shows "case complete_intent env ca cfg p i (d, st) of
           (r, d', st') \<Rightarrow>
             d' = d \<and>
             consumption st' = consumption st - (intent_approx_size i + int (length p)) \<and>
             seen_state st' = seen_state st \<and> deferred_intents st' = deferred_intents st \<and>
             source_cache st' = source_cache st \<and> world st' = w' \<and>
             (\<exists>log. trace st' = trace st @ log \<and> list_all is_log log)"
proof (cases exc)
  case (Failure m es)
  then show ?thesis
    using assms
    by (cases "quiet ca"; cases "errors ca = ''ignore''"; cases "errors ca = ''fail''")
       (simp_all add: complete_intent_def Let_def elaborate_def is_log_def)
qed (use assms in \<open>cases "quiet ca"; simp add: complete_intent_def Let_def is_log_def\<close>)+


lemma complete_intent_accounted:
  assumes "accounted (st\<lparr>consumption := consumption st
                           - (intent_approx_size i + int (length p))\<rparr>)"
  shows "accounted (snd (snd (complete_intent env ca cfg p i (d, st))))"
proof -
  obtain res w' where run: "run env cfg i p (dry_run ca) (world st) = (res, w')"
    by (cases "run env cfg i p (dry_run ca) (world st)")
  obtain r d' st' where c: "complete_intent env ca cfg p i (d, st) = (r, d', st')"
    by (cases "complete_intent env ca cfg p i (d, st)")
  show ?thesis
  proof (cases res)
    case (Inl exc)
    then show ?thesis
      using complete_intent_err [of env cfg i p ca st exc w' d] run c assms
      by (simp add: accounted_def)
  next
    case (Inr u)
    then show ?thesis
      using complete_intent_ok [of env cfg i p ca st u w' d] run assms
      by (cases "map_of (source_cache st) p")
         (simp_all add: accounted_def cache_size_def sum_update_absent sum_update_present
            distinct_update)
  qed
qed

lemma complete_intent_frame:
  "case complete_intent env ca cfg p i (d, st) of
     (r, d', st') \<Rightarrow>
       seen_state st' = seen_state st \<and> deferred_intents st' = deferred_intents st \<and>
       (\<exists>log. trace st' = trace st @ log \<and> list_all is_log log)"
proof -
  obtain res w' where run: "run env cfg i p (dry_run ca) (world st) = (res, w')"
    by (cases "run env cfg i p (dry_run ca) (world st)")
  show ?thesis
  proof (cases res)
    case (Inl exc)
    then show ?thesis
      using complete_intent_err [of env cfg i p ca st exc w' d] run
      by (auto split: prod.splits)
  next
    case (Inr u)
    then show ?thesis
      using complete_intent_ok [of env cfg i p ca st u w' d] run
      by (simp add: is_log_def)
  qed
qed

lemma flush_seen_accounted:
  "accounted st \<Longrightarrow>
   accounted (snd (snd (snd (flush_seen env ca cfg ms mm n (nd, d, st)))))"
proof (induction n arbitrary: nd d st)
  case 0
  then show ?case by simp
next
  case (Suc n)
  show ?case
  proof (cases "int (Suc n) > ms \<or> consumption st > mm")
    case False
    then show ?thesis using Suc.prems by simp
  next
    case True
    show ?thesis
    proof (cases "pop \<lparr>mem = consumption st, state = seen_state st\<rparr>")
      case (Inl exc)
      then show ?thesis using True Suc.prems by simp
    next
      case (Inr x)
      obtain k c sc where x: "x = ((k, c), sc)" by (cases x) auto
      define st1 where "st1 = st\<lparr>consumption := mem sc, seen_state := state sc\<rparr>"
      have a1: "accounted st1"
        using pop_accounted [OF Suc.prems] Inr x by (simp add: st1_def)
      show ?thesis
      proof (cases "map_of (deferred_intents st1) k")
        case None
        then show ?thesis
          using True Inr x Suc.IH [OF a1] by (simp add: st1_def)
      next
        case (Some intent)
        define st1' where
          "st1' = st1\<lparr>deferred_intents := AList.delete k (deferred_intents st1)\<rparr>"
        have pre: "accounted (st1'\<lparr>consumption := consumption st1'
                             - (intent_approx_size intent + int (length k))\<rparr>)"
          using a1 Some
          by (simp add: st1'_def accounted_def intents_size_def sum_delete distinct_delete)
        obtain r d' st2 where c: "complete_intent env ca cfg k intent (d, st1') = (r, d', st2)"
          by (cases "complete_intent env ca cfg k intent (d, st1')")
        have a2: "accounted st2"
          using complete_intent_accounted [OF pre, of env ca cfg d] c by simp
        show ?thesis
          using True Inr x Some c a2 Suc.IH [OF a2]
          by (cases r) (simp_all add: st1_def st1'_def)
      qed
    qed
  qed
qed

lemma flush_deferred_accounted:
  "accounted st \<Longrightarrow>
   accounted (snd (snd (flush_deferred env ca cfg md mm n (d, st))))"
proof (induction n arbitrary: d st)
  case 0
  then show ?case by simp
next
  case (Suc n)
  show ?case
  proof (cases "int (Suc n) > md \<or> consumption st > mm")
    case False
    then show ?thesis using Suc.prems by simp
  next
    case True
    show ?thesis
    proof (cases "deferred_intents st")
      case Nil
      then show ?thesis using True Suc.prems by simp
    next
      case (Cons x rest)
      obtain k intent where x: "x = (k, intent)" by (cases x)
      define st1 where "st1 = st\<lparr>deferred_intents := rest\<rparr>"
      have pre: "accounted (st1\<lparr>consumption := consumption st1
                           - (intent_approx_size intent + int (length k))\<rparr>)"
        using Suc.prems Cons x by (simp add: st1_def accounted_def intents_size_def)
      obtain r d' st2 where c: "complete_intent env ca cfg k intent (d, st1) = (r, d', st2)"
        by (cases "complete_intent env ca cfg k intent (d, st1)")
      have a2: "accounted st2"
        using complete_intent_accounted [OF pre, of env ca cfg d] c by simp
      show ?thesis
        using True Cons x c a2 Suc.IH [OF a2]
        by (cases r) (simp_all add: st1_def)
    qed
  qed
qed

lemma flush_cache_accounted:
  "accounted st \<Longrightarrow> accounted (snd (flush_cache mc mm n st))"
proof (induction n arbitrary: st)
  case 0
  then show ?case by simp
next
  case (Suc n)
  show ?case
  proof (cases "int (Suc n) > mc \<or> consumption st > mm")
    case False
    then show ?thesis using Suc.prems by simp
  next
    case True
    show ?thesis
    proof (cases "source_cache st")
      case Nil
      then show ?thesis using True Suc.prems by simp
    next
      case (Cons x rest)
      obtain k s where x: "x = (k, s)" by (cases x)
      have "accounted (st\<lparr>source_cache := rest,
                   consumption := consumption st - (approx_size s + int (length k))\<rparr>)"
        using Suc.prems Cons x by (simp add: accounted_def cache_size_def)
      then show ?thesis
        using True Cons x Suc.IH by simp
    qed
  qed
qed

lemma accounted_frame:
  "accounted (st\<lparr>world := w, trace := t\<rparr>) = accounted st"
  "accounted (st\<lparr>trace := t\<rparr>) = accounted st"
  "accounted (st\<lparr>world := w\<rparr>) = accounted st"
  by (simp_all add: accounted_def)

lemma flush_updates_accounted:
  assumes "accounted st"
  shows "accounted (snd (flush_updates env ca cfg final st))"
proof -
  define mm where "mm = (if \<not> final then max_memory ca * 1024 * 1024 else 0)"
  define md where "md = (if \<not> final then max_deferred ca else 0)"
  define d0 where "d0 = (case terminator ca of None \<Rightarrow> None | Some t \<Rightarrow> Some ([]::path list))"
  obtain r1 nd1 d1 st1 where f1:
    "flush_seen env ca cfg (max_seen ca) mm (length (seen_state st))
       (int (length (deferred_intents st)), d0, st) = (r1, nd1, d1, st1)"
    by (cases "flush_seen env ca cfg (max_seen ca) mm (length (seen_state st))
       (int (length (deferred_intents st)), d0, st)") auto
  have a1: "accounted st1"
    using flush_seen_accounted [OF assms, of env ca cfg "max_seen ca" mm
        "length (seen_state st)" "int (length (deferred_intents st))" d0] f1 by simp
  define md' where "md' = (if \<not> final \<and> nd1 \<le> md + max_batched ca \<and> consumption st1 \<le> mm
                         then md + max_batched ca else md)"
  obtain r2 d2 st2 where f2:
    "flush_deferred env ca cfg md' mm (nat nd1) (d1, st1) = (r2, d2, st2)"
    by (cases "flush_deferred env ca cfg md' mm (nat nd1) (d1, st1)") auto
  have a2: "accounted st2"
    using flush_deferred_accounted [OF a1, of env ca cfg md' mm "nat nd1" d1] f2 by simp
  have a3: "accounted (snd (flush_cache (max_cached ca) mm (length (source_cache st))
              (st2\<lparr>world := dsync_finish env (dsync_sync env (world st2)),
                   trace := trace st2 @ [DsyncSync] @ report_done ca d2 @ [DsyncFinish]\<rparr>)))"
    using a2 by (intro flush_cache_accounted) (simp add: accounted_frame)
  show ?thesis
    using assms f1 f2 a1 a2 a3
    by (cases r1; cases r2)
       (simp_all add: flush_updates_def Let_def mm_def [symmetric] md_def [symmetric]
          d0_def [symmetric] md'_def [symmetric])
qed

lemma finish_updates_accounted:
  "accounted st \<Longrightarrow> accounted (snd (finish_updates env ca cfg st))"
  using flush_updates_accounted [of st env ca cfg True]
  by (cases "flush_updates env ca cfg True st") (auto simp: finish_updates_def split: option.splits)

lemma emit_iteration_accounted:
  assumes "accounted st" and "emit_iteration env cfg new_source rr st = (rel, ap, res, st')"
  shows "accounted st'"
proof -
  obtain num sc where c: "count (output_path rr 0) \<lparr>mem = consumption st, state = seen_state st\<rparr>
      = (num, sc)"
    by (cases "count (output_path rr 0) \<lparr>mem = consumption st, state = seen_state st\<rparr>")
  define st0 where "st0 = st\<lparr>consumption := mem sc, seen_state := state sc\<rparr>"
  define ap' where "ap' = os_abspath env (output_path rr num)"
  have a0: "accounted st0"
    using count_accounted [OF assms(1) c] by (simp add: st0_def)
  obtain r1 st1 where e: "emit_attempt env cfg new_source ap' st0 = (r1, st1)"
    by (cases "emit_attempt env cfg new_source ap' st0")
  note p1 = emit_attempt_accounted [OF a0 e]
  show ?thesis
  proof (cases r1)
    case (Inl exc)
    then show ?thesis
      using assms(2) c e p1
      by (simp add: emit_iteration_def st0_def [symmetric] ap'_def [symmetric] Let_def)
  next
    case (Inr x)
    obtain intent updated permitted where x: "x = (intent, updated, permitted)"
      by (cases x)
    have a2: "accounted (reinstate ap' intent updated st1)"
      using p1 by (intro reinstate_accounted) simp_all
    show ?thesis
      using assms(2) c e Inr x a2
      by (auto simp: emit_iteration_def st0_def [symmetric] ap'_def [symmetric] Let_def)
  qed
qed

lemma emit_loop_accounted:
  "accounted st \<Longrightarrow> emit_loop fuel env cfg new_source rr prev st = Some (r, st') \<Longrightarrow>
   accounted st'"
proof (induction fuel arbitrary: prev st)
  case 0
  then show ?case by simp
next
  case (Suc fuel)
  obtain rel ap res st2 where it: "emit_iteration env cfg new_source rr st = (rel, ap, res, st2)"
    by (cases "emit_iteration env cfg new_source rr st") auto
  have a2: "accounted st2"
    using emit_iteration_accounted [OF Suc.prems(1) it] .
  show ?case
  proof (cases res)
    case (Inl exc)
    then show ?thesis using Suc.prems(2) it a2 by simp
  next
    case (Inr x)
    obtain intent permitted where x: "x = (intent, permitted)" by (cases x)
    show ?thesis
      using Suc.prems(2) it Inr x a2 Suc.IH [OF a2]
      by (simp split: if_splits)
  qed
qed

lemma emit_accounted:
  assumes "accounted st" and "emit fuel env ca cfg new_source rr st = Some (r, st')"
  shows "accounted st'"
proof (cases "filters_allow rr")
  case False
  then show ?thesis using assms by (simp add: emit_def)
next
  case True
  show ?thesis
  proof (cases "emit_loop fuel env cfg new_source rr None st")
    case None
    then show ?thesis using assms True by (simp add: emit_def)
  next
    case (Some y)
    obtain res st1 where y: "y = (res, st1)" by (cases y)
    have a1: "accounted st1"
      using emit_loop_accounted [OF assms(1)] Some y by simp
    show ?thesis
    proof (cases res)
      case (Inl exc)
      then show ?thesis using assms True Some y a1 by (simp add: emit_def)
    next
      case (Inr z)
      obtain intent ap where z: "z = (intent, ap)" by (cases z)
      define st2 where "st2 = (case intent of
                          Some i \<Rightarrow> st1
                        | None \<Rightarrow>
                            (case terminator ca of
                               None \<Rightarrow> st1
                             | Some t \<Rightarrow>
                                 st1\<lparr>trace := trace st1 @
                                       [StdoutWrite ap, StdoutWriteBytes t]\<rparr>))"
      have a2: "accounted st2"
        using a1 by (simp add: st2_def accounted_frame split: option.splits)
      show ?thesis
        using assms(2) True Some y Inr z a2 flush_updates_accounted [OF a2, of env ca cfg False]
        by (auto simp: emit_def Let_def st2_def [symmetric] split: if_splits)
    qed
  qed
qed

text \<open>
  C1, as the code has it. At every entry and exit of the engine (initially, and after
  every \<^verbatim>\<open>emit\<close>, \<^verbatim>\<open>flush_updates\<close> and \<^verbatim>\<open>finish_updates\<close>, whether they return or raise),
  \<^verbatim>\<open>mem.consumption\<close> is the sum, over the source cache, of \<^verbatim>\<open>approx_size()\<close> of the source
  plus the length of its key; over the queued intents, of \<^verbatim>\<open>approx_size()\<close> of the intent
  plus the length of its key; and over the seen counter, of the length of the key.
\<close>

theorem memory_account_kept:
  "accounted (init_engine w) \<and>
   (accounted st \<longrightarrow>
      (\<forall>r st'. emit fuel env ca cfg new_source rr st = Some (r, st') \<longrightarrow> accounted st') \<and>
      accounted (snd (flush_updates env ca cfg final st)) \<and>
      accounted (snd (finish_updates env ca cfg st)))"
proof -
  have "accounted (init_engine w)"
    by (simp add: accounted_def init_engine_def cache_size_def intents_size_def seen_size_def)
  then show ?thesis
    using emit_accounted flush_updates_accounted finish_updates_accounted by blast
qed

lemma emit_a:
  "emit 1 example_env default_cargs (keep_cfg Copy) (src ''/in/a.wrr'' 7 (Some 5)) rr_num
     (init_engine w0) = Some (None, engine_after_a)"
  by (simp add: eval_defs)

theorem memory_account_kept_witness:
  "accounted (init_engine w0) \<and>
   emit 1 example_env default_cargs (keep_cfg Copy) (src ''/in/a.wrr'' 7 (Some 5)) rr_num
     (init_engine w0) = Some (None, engine_after_a) \<and>
   accounted engine_after_a \<and>
   accounted (snd (flush_updates example_env default_cargs (keep_cfg Copy) True engine_after_a)) \<and>
   accounted (snd (finish_updates example_env default_cargs (keep_cfg Copy) engine_after_a))"
proof -
  have i: "accounted (init_engine w0)"
    using memory_account_kept [of w0 "init_engine w0" 1 example_env default_cargs
        "keep_cfg Copy" "src ''/in/a.wrr'' 7 (Some 5)" rr_num True]
    by (rule conjunct1)
  have a: "accounted engine_after_a"
    using memory_account_kept [of w0 "init_engine w0" 1 example_env default_cargs
        "keep_cfg Copy" "src ''/in/a.wrr'' 7 (Some 5)" rr_num] i emit_a
    by simp
  show ?thesis
    using memory_account_kept [of w0 engine_after_a 1 example_env default_cargs
        "keep_cfg Copy" "src ''/in/a.wrr'' 7 (Some 5)" rr_num True] i a emit_a
    by simp
qed

text \<open>
  C1 as stated fails: the code counts the key of every cached source and of every queued
  intent as well. After one \<^verbatim>\<open>emit\<close>, \<^verbatim>\<open>mem.consumption\<close> is 342 and the sum the claim
  describes is 318; the difference is twice the length of \<^verbatim>\<open>/out/x_0.wrr\<close>.
\<close>

theorem memory_account_counterexample:
  "emit 1 example_env default_cargs (keep_cfg Copy) (src ''/in/a.wrr'' 7 (Some 5)) rr_num
     (init_engine w0) = Some (None, engine_after_a) \<and>
   consumption engine_after_a = 342 \<and> spec_account engine_after_a = 318"
proof -
  have "consumption engine_after_a = 342"
    by (simp add: engine_after_a_def)
  moreover have "spec_account engine_after_a = 318"
    by (simp add: engine_after_a_def spec_account_def approx_size_def intent_approx_size_def
        src_def)
  ultimately show ?thesis
    using emit_a by blast
qed

subsection \<open>The retry loop of \<^verbatim>\<open>emit\<close>\<close>

lemma update_from_refused:
  "update_from env w cfg self new_source = Inr (i', is_old, False) \<Longrightarrow> i' = self \<and> is_old"
  by (auto simp: update_from_def update_from_stime_def
      split: if_splits sum.splits prod.splits)

lemma defer_from_old_refused:
  assumes "defer_from_old env w cfg old new_source = Inr (i, u, False)"
  shows "i = None \<and> u = Some old \<and>
         update_from env w cfg \<lparr>source = old, exists = True\<rparr> new_source
           = Inr (\<lparr>source = old, exists = True\<rparr>, True, False)"
proof -
  obtain i' is_old p where u: "update_from env w cfg \<lparr>source = old, exists = True\<rparr> new_source
      = Inr (i', is_old, p)"
    using assms by (auto simp: defer_from_old_def split: sum.splits)
  have p: "\<not> p"
    using assms u by (auto simp: defer_from_old_def split: if_splits)
  have "i' = \<lparr>source = old, exists = True\<rparr> \<and> is_old"
    using update_from_refused [of env w cfg "\<lparr>source = old, exists = True\<rparr>" new_source i' is_old]
      u p by simp
  then show ?thesis
    using assms u p by (auto simp: defer_from_old_def split: if_splits)
qed

lemma defer_from_old_again:
  assumes "defer_from_old env w cfg old new_source = Inr (i, u, False)"
  shows "defer_from_old env w cfg old new_source = Inr (None, Some old, False)"
  using assms defer_from_old_refused [OF assms] by simp

lemma defer_refused:
  assumes "OrganizeIntent_defer env w cfg ap oo new_source = Inr (i, u, False)"
  shows "i = None \<and> abs_path new_source \<noteq> ap \<and>
         (\<exists>old. u = Some old \<and>
            defer_from_old env w cfg old new_source = Inr (None, Some old, False))"
proof -
  have ne: "abs_path new_source \<noteq> ap"
    using assms by (auto simp: OrganizeIntent_defer_def)
  have "\<exists>old. defer_from_old env w cfg old new_source = Inr (i, u, False)"
    using assms ne
    by (auto simp: OrganizeIntent_defer_def split: option.splits sum.splits if_splits)
  then obtain old where d: "defer_from_old env w cfg old new_source = Inr (i, u, False)"
    by blast
  show ?thesis
    using ne defer_from_old_refused [OF d] defer_from_old_again [OF d] by blast
qed


lemma emit_attempt_refused:
  assumes "emit_attempt env cfg new_source ap st0 = (Inr (intent, updated, False), st1)"
  shows "world st1 = world st0 \<and> seen_state st1 = seen_state st0 \<and>
         map_of (source_cache st1) ap = None \<and> map_of (deferred_intents st1) ap = None \<and>
         ((\<exists>I. intent = Some I \<and> updated = Some (source I) \<and>
               update_from env (world st0) cfg I new_source = Inr (I, True, False)) \<or>
          (intent = None \<and> abs_path new_source \<noteq> ap \<and>
           (\<exists>old. updated = Some old \<and>
              defer_from_old env (world st0) cfg old new_source = Inr (None, Some old, False))))"
proof -
  define st' where "st' = (case map_of (source_cache st0) ap of
               None \<Rightarrow> st0
             | Some old \<Rightarrow>
                  st0\<lparr>source_cache := AList.delete ap (source_cache st0),
                      consumption := consumption st0 - (approx_size old + int (length ap))\<rparr>)"
  have c': "map_of (source_cache st') ap = None"
    and w': "world st' = world st0" "seen_state st' = seen_state st0"
    and d': "deferred_intents st' = deferred_intents st0"
    by (auto simp: st'_def map_of_delete_same split: option.splits)
  show ?thesis
  proof (cases "map_of (deferred_intents st') ap")
    case None
    then have e: "st1 = st'"
      "OrganizeIntent_defer env (world st0) cfg ap (map_of (source_cache st0) ap) new_source
         = Inr (intent, updated, False)"
      using assms d' by (auto simp: emit_attempt_def st'_def split: option.splits)
    show ?thesis
      using e(1) c' w' None defer_refused [OF e(2)] by simp
  next
    case (Some I)
    define st2 where "st2 = st'\<lparr>deferred_intents := AList.delete ap (deferred_intents st'),
                           consumption := consumption st'
                             - (intent_approx_size I + int (length ap))\<rparr>"
    obtain i' is_old where u: "update_from env (world st0) cfg I new_source = Inr (i', is_old, False)"
      and r: "intent = Some i'" "updated = Some (source i')" "st1 = st2"
      using assms Some d'
      by (auto simp: emit_attempt_def st'_def st2_def Let_def
          split: option.splits sum.splits prod.splits)
    have "i' = I \<and> is_old"
      using update_from_refused [OF u] .
    then show ?thesis
      using u r c' w' by (simp add: st2_def map_of_delete_same)
  qed
qed

lemma emit_attempt_again:
  assumes "map_of (source_cache st) ap = Some u"
    and "(map_of (deferred_intents st) ap = Some I \<and> u = source I \<and>
          update_from env (world st) cfg I new_source = Inr (I, True, False)) \<or>
         (map_of (deferred_intents st) ap = None \<and> abs_path new_source \<noteq> ap \<and>
          defer_from_old env (world st) cfg u new_source = Inr (None, Some u, False))"
  shows "\<exists>intent updated st'.
           emit_attempt env cfg new_source ap st = (Inr (intent, updated, False), st')"
  using assms
  by (auto simp: emit_attempt_def Let_def OrganizeIntent_defer_def AList.delete_conv')


lemma reinstate_fields:
  "world (reinstate ap i u st) = world st"
  "source_cache (reinstate ap i (Some x) st) = AList.update ap x (source_cache st)"
  "deferred_intents (reinstate ap (Some I) u st) = AList.update ap I (deferred_intents st)"
  "deferred_intents (reinstate ap None u st) = deferred_intents st"
  by (cases i; cases u; simp add: reinstate_def)+

lemma emit_iteration_refused_again:
  assumes flat: "\<forall>n. output_path rr n = output_path rr 0"
    and it: "emit_iteration env cfg new_source rr st = (rel, ap, Inr (intent, False), st2)"
  shows "\<exists>intent' st3.
           emit_iteration env cfg new_source rr st2 = (rel, ap, Inr (intent', False), st3)"
proof -
  obtain num sc where c: "count (output_path rr 0) \<lparr>mem = consumption st, state = seen_state st\<rparr>
      = (num, sc)"
    by (cases "count (output_path rr 0) \<lparr>mem = consumption st, state = seen_state st\<rparr>")
  define st0 where "st0 = st\<lparr>consumption := mem sc, seen_state := state sc\<rparr>"
  define ap0 where "ap0 = os_abspath env (output_path rr 0)"
  have n: "output_path rr num = output_path rr 0"
    using flat by blast
  obtain r1 st1 where e: "emit_attempt env cfg new_source ap0 st0 = (r1, st1)"
    by (cases "emit_attempt env cfg new_source ap0 st0")
  have it': "emit_iteration env cfg new_source rr st =
      (case (r1, st1) of
         (Inl exc, st1) \<Rightarrow> (output_path rr 0, ap0, Inl exc, st1)
       | (Inr (intent, updated_source, permitted), st1) \<Rightarrow>
           (output_path rr 0, ap0, Inr (intent, permitted),
            reinstate ap0 intent updated_source st1))"
    using c n e by (cases r1) (auto simp: emit_iteration_def Let_def st0_def ap0_def)
  obtain updated where r1: "r1 = Inr (intent, updated, False)"
    and rel: "rel = output_path rr 0" and ap: "ap = ap0"
    and st2: "st2 = reinstate ap0 intent updated st1"
    using it unfolding it' by (auto split: sum.splits)
  note ref = emit_attempt_refused [OF e [unfolded r1]]
  obtain num' sc' where c': "count (output_path rr 0)
      \<lparr>mem = consumption st2, state = seen_state st2\<rparr> = (num', sc')"
    by (cases "count (output_path rr 0) \<lparr>mem = consumption st2, state = seen_state st2\<rparr>")
  define st0' where "st0' = st2\<lparr>consumption := mem sc', seen_state := state sc'\<rparr>"
  have n': "output_path rr num' = output_path rr 0"
    using flat by blast
  have w: "world st0' = world st0"
    using ref by (simp add: st0'_def st2 reinstate_fields)
  obtain u where u: "updated = Some u"
    using ref by auto
  have cache: "map_of (source_cache st0') ap0 = Some u"
    by (simp add: st0'_def st2 u reinstate_fields update_conv')
  have alt: "(\<exists>I. map_of (deferred_intents st0') ap0 = Some I \<and> u = source I \<and>
          update_from env (world st0') cfg I new_source = Inr (I, True, False)) \<or>
         (map_of (deferred_intents st0') ap0 = None \<and> abs_path new_source \<noteq> ap0 \<and>
          defer_from_old env (world st0') cfg u new_source = Inr (None, Some u, False))"
    using ref u w
    by (auto simp: st0'_def st2 reinstate_fields update_conv')
  obtain intent' updated' st1' where
    e': "emit_attempt env cfg new_source ap0 st0' = (Inr (intent', updated', False), st1')"
    using emit_attempt_again [OF cache, of _ env cfg new_source] alt by blast
  have "emit_iteration env cfg new_source rr st2 =
      (output_path rr 0, ap0, Inr (intent', False), reinstate ap0 intent' updated' st1')"
    using c' n' e' by (simp add: emit_iteration_def Let_def st0'_def ap0_def)
  then show ?thesis
    using rel ap by blast
qed

text \<open>
  C4. In the retry loop of \<^verbatim>\<open>emit\<close>, a turn that is not permitted and whose destination
  path (\<^verbatim>\<open>rel_out_path\<close>) is that of the turn before raises the \<^verbatim>\<open>Failure\<close> "destination
  already exists" with the variance hint. When the template does not vary with \<^verbatim>\<open>num\<close>
  and the first turn is not permitted, the second turn is not permitted either, so
  \<^verbatim>\<open>emit\<close> raises that \<^verbatim>\<open>Failure\<close> within two turns: fuel for two turns is enough.
\<close>

theorem emit_variance_detection:
  "(emit_iteration env cfg new_source rr st = (rel, ap, Inr (intent, False), st2) \<and>
    prev = Some rel \<longrightarrow>
      emit_loop (Suc fuel) env cfg new_source rr prev st
        = Some (Inl (variance_failure cfg new_source ap), st2)) \<and>
   ((\<forall>n. output_path rr n = output_path rr 0) \<and> filters_allow rr \<and>
    emit_iteration env cfg new_source rr st = (rel, ap, Inr (intent, False), st2) \<longrightarrow>
      (\<exists>st3. emit (Suc (Suc fuel)) env ca cfg new_source rr st
               = Some (Some (variance_failure cfg new_source ap), st3))) \<and>
   variance_failure cfg new_source ap =
     Failure (''destination already exists'' @ variance_help)
       [''while '' @ actioning cfg @ '' `'' @ abs_path new_source @ ''` -> `'' @ ap @ ''`'']"
proof (intro conjI impI)
  assume "emit_iteration env cfg new_source rr st = (rel, ap, Inr (intent, False), st2) \<and>
    prev = Some rel"
  then show "emit_loop (Suc fuel) env cfg new_source rr prev st
        = Some (Inl (variance_failure cfg new_source ap), st2)"
    by simp
next
  assume a: "(\<forall>n. output_path rr n = output_path rr 0) \<and> filters_allow rr \<and>
    emit_iteration env cfg new_source rr st = (rel, ap, Inr (intent, False), st2)"
  then obtain intent' st3 where
    again: "emit_iteration env cfg new_source rr st2 = (rel, ap, Inr (intent', False), st3)"
    using emit_iteration_refused_again by blast
  have "emit_loop (Suc (Suc fuel)) env cfg new_source rr None st
        = Some (Inl (variance_failure cfg new_source ap), st3)"
    using a again by simp
  then have "emit (Suc (Suc fuel)) env ca cfg new_source rr st
        = Some (Some (variance_failure cfg new_source ap), st3)"
    using a by (simp add: emit_def)
  then show "\<exists>st3. emit (Suc (Suc fuel)) env ca cfg new_source rr st
               = Some (Some (variance_failure cfg new_source ap), st3)"
    by blast
next
  show "variance_failure cfg new_source ap =
     Failure (''destination already exists'' @ variance_help)
       [''while '' @ actioning cfg @ '' `'' @ abs_path new_source @ ''` -> `'' @ ap @ ''`'']"
    by (simp add: variance_failure_def elaborate_def format_source_def)
qed

theorem emit_variance_detection_witness:
  "emit_loop 1 example_env (keep_cfg Copy) (src ''/in/a.wrr'' 7 (Some 5)) rr_flat
     (Some ''/out/x.wrr'') (init_engine w_taken)
   = Some (Inl (Failure (''destination already exists'' @ variance_help)
                  [''while copying `/in/a.wrr` -> `/out/x.wrr`'']), engine_refused) \<and>
   (\<exists>st3. emit 2 example_env default_cargs (keep_cfg Copy) (src ''/in/a.wrr'' 7 (Some 5))
             rr_flat (init_engine w_taken)
           = Some (Some (Failure (''destination already exists'' @ variance_help)
                           [''while copying `/in/a.wrr` -> `/out/x.wrr`'']), st3))"
proof -
  have it: "emit_iteration example_env (keep_cfg Copy) (src ''/in/a.wrr'' 7 (Some 5)) rr_flat
      (init_engine w_taken) = (''/out/x.wrr'', ''/out/x.wrr'', Inr (None, False), engine_refused)"
    by (simp add: eval_defs)
  have flat: "\<forall>n. output_path rr_flat n = output_path rr_flat 0"
    by (simp add: rr_flat_def)
  have fa: "filters_allow rr_flat"
    by (simp add: rr_flat_def)
  have m: "''while '' @ actioning (keep_cfg Copy) @ '' `''
             @ abs_path (src ''/in/a.wrr'' 7 (Some 5)) @ ''` -> `'' @ ''/out/x.wrr'' @ ''`''
           = ''while copying `/in/a.wrr` -> `/out/x.wrr`''"
    by (simp add: keep_cfg_def src_def)
  have two: "(2::nat) = Suc (Suc 0)" "(1::nat) = Suc 0"
    by simp_all
  note t = emit_variance_detection [where env = example_env and cfg = "keep_cfg Copy"
        and new_source = "src ''/in/a.wrr'' 7 (Some 5)" and rr = rr_flat
        and st = "init_engine w_taken" and rel = "''/out/x.wrr''" and ap = "''/out/x.wrr''"
        and intent = None and ?st2.0 = engine_refused and prev = "Some ''/out/x.wrr''"
        and fuel = 0 and ca = default_cargs]
  have v: "Failure (''destination already exists'' @ variance_help)
             [''while copying `/in/a.wrr` -> `/out/x.wrr`'']
           = variance_failure (keep_cfg Copy) (src ''/in/a.wrr'' 7 (Some 5)) ''/out/x.wrr''"
    using t m by simp
  have a: "emit_loop (Suc 0) example_env (keep_cfg Copy) (src ''/in/a.wrr'' 7 (Some 5)) rr_flat
     (Some ''/out/x.wrr'') (init_engine w_taken)
   = Some (Inl (variance_failure (keep_cfg Copy) (src ''/in/a.wrr'' 7 (Some 5)) ''/out/x.wrr''),
           engine_refused)"
    using t it by blast
  have b: "\<exists>st3. emit (Suc (Suc 0)) example_env default_cargs (keep_cfg Copy)
             (src ''/in/a.wrr'' 7 (Some 5)) rr_flat (init_engine w_taken)
           = Some (Some (variance_failure (keep_cfg Copy) (src ''/in/a.wrr'' 7 (Some 5))
                           ''/out/x.wrr''), st3)"
    using t it flat fa by blast
  show ?thesis
    unfolding two v using a b by blast
qed

subsection \<open>The final flush\<close>

text \<open>
  C8 does not hold of the code. With \<^verbatim>\<open>--cache-number 0\<close>, one \<^verbatim>\<open>emit\<close> leaves an intent
  queued whose destination is no longer in the source cache. The final flush runs the
  intent, which enters the destination into the source cache; its last loop counts down
  \<^verbatim>\<open>num_cached\<close>, taken before the intents ran (here 0), and removes nothing. So
  \<^verbatim>\<open>flush_updates(True)\<close> returns normally with the source cache not empty and
  \<^verbatim>\<open>mem.consumption = 149\<close>, and the \<^verbatim>\<open>assert mem.consumption == 0\<close> of \<^verbatim>\<open>finish_updates\<close>
  fails.
\<close>

theorem final_flush_leaves_cache:
  "emit 1 example_env (default_cargs\<lparr>max_cached := 0\<rparr>) (keep_cfg Copy)
     (src ''/in/a.wrr'' 7 (Some 5)) rr_num (init_engine w0)
     = Some (None, engine_after_a_uncached) \<and>
   flush_updates example_env (default_cargs\<lparr>max_cached := 0\<rparr>) (keep_cfg Copy) True
     engine_after_a_uncached
     = (None,
        \<lparr>consumption = 149, seen_state = [], deferred_intents = [],
         source_cache = [(''/out/x_0.wrr'', src ''/in/a.wrr'' 7 (Some 5))],
         world = w0 @ [(''/out/x_0.wrr'', reg 7, ''aaaa'')],
         trace = [DsyncSync, StdoutFlush, StdoutFsync, DsyncFinish,
                  StderrAction ''copying'' ''/in/a.wrr'' ''/out/x_0.wrr'', DsyncSync,
                  StdoutWrite ''/out/x_0.wrr'', StdoutWriteBytes [CHR 0x0A], StdoutFlush,
                  StdoutFsync, DsyncFinish]\<rparr>) \<and>
   fst (finish_updates example_env (default_cargs\<lparr>max_cached := 0\<rparr>) (keep_cfg Copy)
          engine_after_a_uncached) = Some AssertionError"
proof -
  have e: "emit 1 example_env (default_cargs\<lparr>max_cached := 0\<rparr>) (keep_cfg Copy)
     (src ''/in/a.wrr'' 7 (Some 5)) rr_num (init_engine w0)
     = Some (None, engine_after_a_uncached)"
    by (simp add: eval_defs)
  have f: "flush_updates example_env (default_cargs\<lparr>max_cached := 0\<rparr>) (keep_cfg Copy) True
     engine_after_a_uncached
     = (None,
        \<lparr>consumption = 149, seen_state = [], deferred_intents = [],
         source_cache = [(''/out/x_0.wrr'', src ''/in/a.wrr'' 7 (Some 5))],
         world = w0 @ [(''/out/x_0.wrr'', reg 7, ''aaaa'')],
         trace = [DsyncSync, StdoutFlush, StdoutFsync, DsyncFinish,
                  StderrAction ''copying'' ''/in/a.wrr'' ''/out/x_0.wrr'', DsyncSync,
                  StdoutWrite ''/out/x_0.wrr'', StdoutWriteBytes [CHR 0x0A], StdoutFlush,
                  StdoutFsync, DsyncFinish]\<rparr>)"
    by (simp add: eval_defs)
  have g: "fst (finish_updates example_env (default_cargs\<lparr>max_cached := 0\<rparr>) (keep_cfg Copy)
          engine_after_a_uncached) = Some AssertionError"
    by (simp add: finish_updates_def f)
  show ?thesis using e f g by blast
qed

subsection \<open>What \<^verbatim>\<open>flush_updates\<close> does to the outside, in order\<close>

lemma flush_seen_trace:
  "\<exists>log. trace (snd (snd (snd (flush_seen env ca cfg ms mm n (nd, d, st))))) = trace st @ log
         \<and> list_all is_log log"
proof (induction n arbitrary: nd d st)
  case 0
  then show ?case by simp
next
  case (Suc n)
  show ?case
  proof (cases "int (Suc n) > ms \<or> consumption st > mm")
    case False
    then show ?thesis by simp
  next
    case True
    show ?thesis
    proof (cases "pop \<lparr>mem = consumption st, state = seen_state st\<rparr>")
      case (Inl exc)
      then show ?thesis using True by simp
    next
      case (Inr x)
      obtain k c sc where x: "x = ((k, c), sc)" by (cases x) auto
      define st1 where "st1 = st\<lparr>consumption := mem sc, seen_state := state sc\<rparr>"
      have t1: "trace st1 = trace st" by (simp add: st1_def)
      show ?thesis
      proof (cases "map_of (deferred_intents st1) k")
        case None
        then show ?thesis
          using True Inr x Suc.IH [where nd = nd and d = d and st = st1] t1 by (simp add: st1_def)
      next
        case (Some intent)
        define st1' where
          "st1' = st1\<lparr>deferred_intents := AList.delete k (deferred_intents st1)\<rparr>"
        obtain r d' st2 where c: "complete_intent env ca cfg k intent (d, st1') = (r, d', st2)"
          by (cases "complete_intent env ca cfg k intent (d, st1')")
        obtain log1 where l1: "trace st2 = trace st @ log1" "list_all is_log log1"
          using complete_intent_frame [where env = env and ca = ca and cfg = cfg and p = k and i = intent
            and d = d and st = st1'] c t1
          by (auto simp: st1'_def)
        obtain log2 where l2:
          "trace (snd (snd (snd (flush_seen env ca cfg ms mm n (nd - 1, d', st2)))))
             = trace st2 @ log2" "list_all is_log log2"
          using Suc.IH [where nd = "nd - 1" and d = d' and st = st2] by auto
        show ?thesis
        proof (cases r)
          case None
          have "trace (snd (snd (snd (flush_seen env ca cfg ms mm (Suc n) (nd, d, st)))))
                = trace st @ (log1 @ log2)"
            using True Inr x Some c None l1 l2 by (simp add: st1_def st1'_def)
          moreover have "list_all is_log (log1 @ log2)" using l1 l2 by simp
          ultimately show ?thesis by blast
        next
          case (Some exc)
          have "trace (snd (snd (snd (flush_seen env ca cfg ms mm (Suc n) (nd, d, st)))))
                = trace st @ log1"
            using True Inr x \<open>map_of (deferred_intents st1) k = Some intent\<close> c Some l1
            by (simp add: st1_def st1'_def)
          then show ?thesis using l1 by blast
        qed
      qed
    qed
  qed
qed

lemma flush_deferred_trace:
  "\<exists>log. trace (snd (snd (flush_deferred env ca cfg md mm n (d, st)))) = trace st @ log
         \<and> list_all is_log log"
proof (induction n arbitrary: d st)
  case 0
  then show ?case by simp
next
  case (Suc n)
  show ?case
  proof (cases "int (Suc n) > md \<or> consumption st > mm")
    case False
    then show ?thesis by simp
  next
    case True
    show ?thesis
    proof (cases "deferred_intents st")
      case Nil
      then show ?thesis using True by simp
    next
      case (Cons x rest)
      obtain k intent where x: "x = (k, intent)" by (cases x)
      define st1 where "st1 = st\<lparr>deferred_intents := rest\<rparr>"
      obtain r d' st2 where c: "complete_intent env ca cfg k intent (d, st1) = (r, d', st2)"
        by (cases "complete_intent env ca cfg k intent (d, st1)")
      obtain log1 where l1: "trace st2 = trace st @ log1" "list_all is_log log1"
        using complete_intent_frame [where env = env and ca = ca and cfg = cfg and p = k and i = intent
            and d = d and st = st1] c
        by (auto simp: st1_def)
      obtain log2 where l2:
        "trace (snd (snd (flush_deferred env ca cfg md mm n (d', st2)))) = trace st2 @ log2"
        "list_all is_log log2"
        using Suc.IH [where d = d' and st = st2] by auto
      show ?thesis
      proof (cases r)
        case None
        have "trace (snd (snd (flush_deferred env ca cfg md mm (Suc n) (d, st))))
              = trace st @ (log1 @ log2)"
          using True Cons x c None l1 l2 by (simp add: st1_def)
        moreover have "list_all is_log (log1 @ log2)" using l1 l2 by simp
        ultimately show ?thesis by blast
      next
        case (Some exc)
        have "trace (snd (snd (flush_deferred env ca cfg md mm (Suc n) (d, st))))
              = trace st @ log1"
          using True Cons x c Some l1 by (simp add: st1_def)
        then show ?thesis using l1 by blast
      qed
    qed
  qed
qed

lemma flush_cache_trace: "trace (snd (flush_cache mc mm n st)) = trace st"
proof (induction n arbitrary: st)
  case 0
  then show ?case by simp
next
  case (Suc n)
  show ?case
    by (cases "int (Suc n) > mc \<or> consumption st > mm"; cases "source_cache st")
       (auto simp: Suc.IH)
qed

lemma complete_intent_done:
  "case complete_intent env ca cfg p i (d, st) of
     (r, d', st') \<Rightarrow> d' = d \<or> d' = map_option (\<lambda>fs. fs @ [p]) d"
proof -
  obtain res w' where run: "run env cfg i p (dry_run ca) (world st) = (res, w')"
    by (cases "run env cfg i p (dry_run ca) (world st)")
  show ?thesis
  proof (cases res)
    case (Inl exc)
    then show ?thesis
      using complete_intent_err [of env cfg i p ca st exc w' d] run
      by (auto split: prod.splits)
  next
    case (Inr u)
    then show ?thesis
      using complete_intent_ok [of env cfg i p ca st u w' d] run
      by simp
  qed
qed

lemma keys_delete: "fst ` set (AList.delete k xs) \<subseteq> fst ` set xs"
  by (auto simp: AList.delete_eq)

lemma done_unchanged:
  "\<exists>fs'. d = map_option (\<lambda>fs. fs @ fs') d \<and> set fs' \<subseteq> A"
  by (rule exI [of _ "[]"]) (cases d; simp)

lemma flush_seen_done:
  "case flush_seen env ca cfg ms mm n (nd, d, st) of
     (r, nd', d', st') \<Rightarrow>
       (\<exists>fs'. d' = map_option (\<lambda>fs. fs @ fs') d \<and>
              set fs' \<subseteq> fst ` set (deferred_intents st)) \<and>
       fst ` set (deferred_intents st') \<subseteq> fst ` set (deferred_intents st)"
proof (induction n arbitrary: nd d st)
  case 0
  show ?case using done_unchanged [of d "fst ` set (deferred_intents st)"] by simp
next
  case (Suc n)
  have triv: "\<exists>fs'. d = map_option (\<lambda>fs. fs @ fs') d \<and>
              set fs' \<subseteq> fst ` set (deferred_intents st)"
    by (rule done_unchanged)
  show ?case
  proof (cases "int (Suc n) > ms \<or> consumption st > mm")
    case False
    then show ?thesis using triv by simp
  next
    case True
    show ?thesis
    proof (cases "pop \<lparr>mem = consumption st, state = seen_state st\<rparr>")
      case (Inl exc)
      then show ?thesis using True triv by simp
    next
      case (Inr x)
      obtain k c sc where x: "x = ((k, c), sc)" by (cases x) auto
      define st1 where "st1 = st\<lparr>consumption := mem sc, seen_state := state sc\<rparr>"
      have d1: "deferred_intents st1 = deferred_intents st" by (simp add: st1_def)
      show ?thesis
      proof (cases "map_of (deferred_intents st1) k")
        case None
        then show ?thesis
          using True Inr x Suc.IH [where nd = nd and d = d and st = st1] d1
          by (simp add: st1_def)
      next
        case (Some intent)
        define st1' where
          "st1' = st1\<lparr>deferred_intents := AList.delete k (deferred_intents st1)\<rparr>"
        have kin: "k \<in> fst ` set (deferred_intents st)"
          using Some d1 by (metis map_of_SomeD fst_conv image_eqI)
        obtain r d' st2 where c: "complete_intent env ca cfg k intent (d, st1') = (r, d', st2)"
          by (cases "complete_intent env ca cfg k intent (d, st1')")
        have dd: "d' = d \<or> d' = map_option (\<lambda>fs. fs @ [k]) d"
          using complete_intent_done [where env = env and ca = ca and cfg = cfg and p = k
              and i = intent and d = d and st = st1'] c by simp
        have ds2: "deferred_intents st2 = deferred_intents st1'"
          using complete_intent_frame [where env = env and ca = ca and cfg = cfg and p = k
              and i = intent and d = d and st = st1'] c by simp
        have sub2: "fst ` set (deferred_intents st2) \<subseteq> fst ` set (deferred_intents st)"
          using ds2 d1 keys_delete [of k "deferred_intents st"] by (simp add: st1'_def)
        have one: "\<exists>fs1. d' = map_option (\<lambda>fs. fs @ fs1) d \<and>
                    set fs1 \<subseteq> fst ` set (deferred_intents st)"
        proof -
          from dd show ?thesis
          proof
            assume "d' = d"
            then show ?thesis using triv by simp
          next
            assume "d' = map_option (\<lambda>fs. fs @ [k]) d"
            moreover have "set [k] \<subseteq> fst ` set (deferred_intents st)" using kin by simp
            ultimately show ?thesis by blast
          qed
        qed
        show ?thesis
        proof (cases r)
          case (Some exc)
          then show ?thesis
            using True Inr x \<open>map_of (deferred_intents st1) k = Some intent\<close> c one sub2
            by (simp add: st1_def st1'_def)
        next
          case None
          obtain r3 nd3 d3 st3 where f:
            "flush_seen env ca cfg ms mm n (nd - 1, d', st2) = (r3, nd3, d3, st3)"
            by (cases "flush_seen env ca cfg ms mm n (nd - 1, d', st2)") auto
          obtain fs2 where ih: "d3 = map_option (\<lambda>fs. fs @ fs2) d'"
            "set fs2 \<subseteq> fst ` set (deferred_intents st2)"
            "fst ` set (deferred_intents st3) \<subseteq> fst ` set (deferred_intents st2)"
            using Suc.IH [where nd = "nd - 1" and d = d' and st = st2] f by auto
          obtain fs1 where o: "d' = map_option (\<lambda>fs. fs @ fs1) d"
            "set fs1 \<subseteq> fst ` set (deferred_intents st)"
            using one by blast
          have m: "d3 = map_option (\<lambda>fs. fs @ (fs1 @ fs2)) d"
            using ih(1) o(1) by (cases d) simp_all
          have s12: "set (fs1 @ fs2) \<subseteq> fst ` set (deferred_intents st)"
            using ih(2) o(2) sub2 by auto
          have ex: "\<exists>fs'. d3 = map_option (\<lambda>fs. fs @ fs') d \<and>
                      set fs' \<subseteq> fst ` set (deferred_intents st)"
            using m s12 by blast
          have sb: "fst ` set (deferred_intents st3) \<subseteq> fst ` set (deferred_intents st)"
            using ih(3) sub2 by auto
          have eq: "flush_seen env ca cfg ms mm (Suc n) (nd, d, st) = (r3, nd3, d3, st3)"
            using True Inr x \<open>map_of (deferred_intents st1) k = Some intent\<close> c None f
            by (simp add: st1_def st1'_def)
          show ?thesis
            unfolding eq prod.case using ex sb by (rule conjI)
        qed
      qed
    qed
  qed
qed


lemma flush_deferred_done:
  "case flush_deferred env ca cfg md mm n (d, st) of
     (r, d', st') \<Rightarrow>
       (\<exists>fs'. d' = map_option (\<lambda>fs. fs @ fs') d \<and>
              set fs' \<subseteq> fst ` set (deferred_intents st))"
proof (induction n arbitrary: d st)
  case 0
  show ?case using done_unchanged [of d "fst ` set (deferred_intents st)"] by simp
next
  case (Suc n)
  have triv: "\<exists>fs'. d = map_option (\<lambda>fs. fs @ fs') d \<and>
              set fs' \<subseteq> fst ` set (deferred_intents st)"
    by (rule done_unchanged)
  show ?case
  proof (cases "int (Suc n) > md \<or> consumption st > mm")
    case False
    then show ?thesis using triv by simp
  next
    case True
    show ?thesis
    proof (cases "deferred_intents st")
      case Nil
      then show ?thesis using True done_unchanged [of d "{}"] by simp
    next
      case (Cons x rest)
      obtain k intent where x: "x = (k, intent)" by (cases x)
      define st1 where "st1 = st\<lparr>deferred_intents := rest\<rparr>"
      have kin: "k \<in> fst ` set (deferred_intents st)"
        using Cons x by simp
      have sub1: "fst ` set (deferred_intents st1) \<subseteq> fst ` set (deferred_intents st)"
        using Cons by (auto simp: st1_def)
      obtain r d' st2 where c: "complete_intent env ca cfg k intent (d, st1) = (r, d', st2)"
        by (cases "complete_intent env ca cfg k intent (d, st1)")
      have dd: "d' = d \<or> d' = map_option (\<lambda>fs. fs @ [k]) d"
        using complete_intent_done [where env = env and ca = ca and cfg = cfg and p = k
            and i = intent and d = d and st = st1] c by simp
      have ds2: "deferred_intents st2 = deferred_intents st1"
        using complete_intent_frame [where env = env and ca = ca and cfg = cfg and p = k
            and i = intent and d = d and st = st1] c by simp
      have one: "\<exists>fs1. d' = map_option (\<lambda>fs. fs @ fs1) d \<and>
                  set fs1 \<subseteq> fst ` set (deferred_intents st)"
      proof -
        from dd show ?thesis
        proof
          assume "d' = d"
          then show ?thesis using triv by simp
        next
          assume "d' = map_option (\<lambda>fs. fs @ [k]) d"
          moreover have "set [k] \<subseteq> fst ` set (deferred_intents st)" using kin by simp
          ultimately show ?thesis by blast
        qed
      qed
      show ?thesis
      proof (cases r)
        case (Some exc)
        have eq: "flush_deferred env ca cfg md mm (Suc n) (d, st) = (Some exc, d', st2)"
          using True Cons x c Some by (simp add: st1_def)
        show ?thesis
          unfolding eq prod.case using one .
      next
        case None
        obtain r3 d3 st3 where f:
          "flush_deferred env ca cfg md mm n (d', st2) = (r3, d3, st3)"
          by (cases "flush_deferred env ca cfg md mm n (d', st2)") auto
        obtain fs2 where ih: "d3 = map_option (\<lambda>fs. fs @ fs2) d'"
          "set fs2 \<subseteq> fst ` set (deferred_intents st2)"
          using Suc.IH [where d = d' and st = st2] f by auto
        obtain fs1 where o: "d' = map_option (\<lambda>fs. fs @ fs1) d"
          "set fs1 \<subseteq> fst ` set (deferred_intents st)"
          using one by blast
        have m: "d3 = map_option (\<lambda>fs. fs @ (fs1 @ fs2)) d"
          using ih(1) o(1) by (cases d) simp_all
        have s12: "set (fs1 @ fs2) \<subseteq> fst ` set (deferred_intents st)"
          using ih(2) o(2) sub1 ds2 by auto
        have ex: "\<exists>fs'. d3 = map_option (\<lambda>fs. fs @ fs') d \<and>
                    set fs' \<subseteq> fst ` set (deferred_intents st)"
          using m s12 by blast
        have eq: "flush_deferred env ca cfg md mm (Suc n) (d, st) = (r3, d3, st3)"
          using True Cons x c None f by (simp add: st1_def)
        show ?thesis
          unfolding eq prod.case using ex .
      qed
    qed
  qed
qed

lemma flush_updates_example:
  "flush_updates example_env default_cargs (keep_cfg Copy) True engine_after_a
   = (None,
      \<lparr>consumption = 0, seen_state = [], deferred_intents = [], source_cache = [],
       world = w0 @ [(''/out/x_0.wrr'', reg 7, ''aaaa'')],
       trace = [StderrAction ''copying'' ''/in/a.wrr'' ''/out/x_0.wrr'', DsyncSync,
                StdoutWrite ''/out/x_0.wrr'', StdoutWriteBytes [CHR 0x0A], StdoutFlush,
                StdoutFsync, DsyncFinish]\<rparr>)"
  by (simp add: eval_defs)

text \<open>
  C9. Whatever a call of \<^verbatim>\<open>flush_updates\<close> does to the outside is, in order: action lines
  and logged errors only (when it returns at once, or an intent raises); or those, then
  \<^verbatim>\<open>dsync.sync()\<close>, then, when reporting is on, for each completed destination its path
  and the terminator on stdout and after all of them the flush and the fsync of stdout,
  then \<^verbatim>\<open>dsync.finish()\<close>. The paths reported are destinations that were queued when
  the call began. So no destination is written to the reporting channel before
  \<^verbatim>\<open>dsync.sync()\<close>, and the channel is fsynced after the paths are written and before the
  cleanups run.
\<close>

theorem flush_updates_report_order:
  "\<exists>log files.
     list_all is_log log \<and> set files \<subseteq> fst ` set (deferred_intents st) \<and>
     (trace (snd (flush_updates env ca cfg final st)) = trace st @ log \<or>
      trace (snd (flush_updates env ca cfg final st))
        = trace st @ log @ [DsyncSync]
          @ (case terminator ca of
               None \<Rightarrow> []
             | Some t \<Rightarrow>
                 concat (map (\<lambda>abs_out_path.
                                [StdoutWrite abs_out_path, StdoutWriteBytes t]) files)
                 @ [StdoutFlush, StdoutFsync])
          @ [DsyncFinish])"
proof -
  let ?mm = "if \<not> final then max_memory ca * 1024 * 1024 else 0"
  let ?md = "if \<not> final then max_deferred ca else 0"
  let ?d0 = "case terminator ca of None \<Rightarrow> None | Some t \<Rightarrow> Some ([]::path list)"
  obtain r1 nd1 d1 st1 where f1:
    "flush_seen env ca cfg (max_seen ca) ?mm (length (seen_state st))
       (int (length (deferred_intents st)), ?d0, st) = (r1, nd1, d1, st1)"
    by (cases "flush_seen env ca cfg (max_seen ca) ?mm (length (seen_state st))
       (int (length (deferred_intents st)), ?d0, st)") auto
  obtain log1 where l1: "trace st1 = trace st @ log1" "list_all is_log log1"
    using flush_seen_trace [where env = env and ca = ca and cfg = cfg and ms = "max_seen ca"
        and mm = ?mm and n = "length (seen_state st)"
        and nd = "int (length (deferred_intents st))" and d = ?d0 and st = st] f1 by auto
  let ?md' = "if \<not> final \<and> nd1 \<le> ?md + max_batched ca \<and> consumption st1 \<le> ?mm
              then ?md + max_batched ca else ?md"
  obtain r2 d2 st2 where f2:
    "flush_deferred env ca cfg ?md' ?mm (nat nd1) (d1, st1) = (r2, d2, st2)"
    by (cases "flush_deferred env ca cfg ?md' ?mm (nat nd1) (d1, st1)") auto
  obtain log2 where l2: "trace st2 = trace st1 @ log2" "list_all is_log log2"
    using flush_deferred_trace [where env = env and ca = ca and cfg = cfg and md = ?md'
        and mm = ?mm and n = "nat nd1" and d = d1 and st = st1] f2 by auto
  obtain fsA where dA: "d1 = map_option (\<lambda>fs. fs @ fsA) ?d0"
    "set fsA \<subseteq> fst ` set (deferred_intents st)"
    "fst ` set (deferred_intents st1) \<subseteq> fst ` set (deferred_intents st)"
    using flush_seen_done [where env = env and ca = ca and cfg = cfg and ms = "max_seen ca"
        and mm = ?mm and n = "length (seen_state st)"
        and nd = "int (length (deferred_intents st))" and d = ?d0 and st = st] f1 by auto
  obtain fsB where dB: "d2 = map_option (\<lambda>fs. fs @ fsB) d1"
    "set fsB \<subseteq> fst ` set (deferred_intents st1)"
    using flush_deferred_done [where env = env and ca = ca and cfg = cfg and md = ?md'
        and mm = ?mm and n = "nat nd1" and d = d1 and st = st1] f2 by auto
  have sAB: "set (fsA @ fsB) \<subseteq> fst ` set (deferred_intents st)"
    using dA dB by auto
  have rep: "report_done ca d2 =
      (case terminator ca of
         None \<Rightarrow> []
       | Some t \<Rightarrow>
           concat (map (\<lambda>abs_out_path.
                          [StdoutWrite abs_out_path, StdoutWriteBytes t]) (fsA @ fsB))
           @ [StdoutFlush, StdoutFsync])"
    using dA(1) dB(1) by (cases "terminator ca") (simp_all add: report_done_def)
  have e0: "set ([]::path list) \<subseteq> fst ` set (deferred_intents st)" by simp
  have nil: "list_all is_log []" by simp
  have l12: "list_all is_log (log1 @ log2)" using l1 l2 by simp
  consider (early) "flush_updates env ca cfg final st = (None, st)"
    | (seen_raised) exc where "flush_updates env ca cfg final st = (Some exc, st1)"
    | (deferred_raised) exc where "flush_updates env ca cfg final st = (Some exc, st2)"
    | (full) "flush_updates env ca cfg final st =
         flush_cache (max_cached ca) ?mm (length (source_cache st))
           (st2\<lparr>world := dsync_finish env (dsync_sync env (world st2)),
                trace := trace st2 @ [DsyncSync] @ report_done ca d2 @ [DsyncFinish]\<rparr>)"
  proof (cases "int (length (deferred_intents st)) \<le> ?md \<and>
            int (length (source_cache st)) \<le> max_cached ca \<and>
            int (length (seen_state st)) \<le> max_seen ca \<and> consumption st \<le> ?mm")
    case True
    then have "flush_updates env ca cfg final st = (None, st)"
      unfolding flush_updates_def Let_def by (simp only: if_True simp_thms)
    then show ?thesis using early by blast
  next
    case False
    then have u: "flush_updates env ca cfg final st =
      (case flush_seen env ca cfg (max_seen ca) ?mm (length (seen_state st))
                   (int (length (deferred_intents st)), ?d0, st) of
              (Some exc, num_deferred1, done_files1, st1) \<Rightarrow> (Some exc, st1)
            | (None, num_deferred1, done_files1, st1) \<Rightarrow>
                (case flush_deferred env ca cfg
                        (if \<not> final \<and> num_deferred1 \<le> ?md + max_batched ca \<and>
                            consumption st1 \<le> ?mm
                         then ?md + max_batched ca else ?md)
                        ?mm (nat num_deferred1) (done_files1, st1) of
                   (Some exc, done_files2, st2) \<Rightarrow> (Some exc, st2)
                 | (None, done_files2, st2) \<Rightarrow>
                     flush_cache (max_cached ca) ?mm (length (source_cache st))
                       (st2\<lparr>world := dsync_finish env (dsync_sync env (world st2)),
                            trace := trace st2 @ [DsyncSync] @ report_done ca done_files2
                                     @ [DsyncFinish]\<rparr>)))"
      unfolding flush_updates_def Let_def by (simp only: if_False simp_thms)
    show ?thesis
    proof (cases r1)
      case (Some exc)
      then have "flush_updates env ca cfg final st = (Some exc, st1)"
        unfolding u f1 by simp
      then show ?thesis using seen_raised by blast
    next
      case None
      note r1 = None
      show ?thesis
      proof (cases r2)
        case (Some exc)
        then have "flush_updates env ca cfg final st = (Some exc, st2)"
          unfolding u f1 using r1 f2 by simp
        then show ?thesis using deferred_raised by blast
      next
        case None
        then have "flush_updates env ca cfg final st =
          flush_cache (max_cached ca) ?mm (length (source_cache st))
           (st2\<lparr>world := dsync_finish env (dsync_sync env (world st2)),
                trace := trace st2 @ [DsyncSync] @ report_done ca d2 @ [DsyncFinish]\<rparr>)"
          unfolding u f1 using r1 f2 by simp
        then show ?thesis using full by blast
      qed
    qed
  qed
  then show ?thesis
  proof cases
    case early
    then have "trace (snd (flush_updates env ca cfg final st)) = trace st @ []" by simp
    then show ?thesis using nil e0 by blast
  next
    case seen_raised
    then have "trace (snd (flush_updates env ca cfg final st)) = trace st @ log1"
      using l1 by simp
    then show ?thesis using l1 e0 by blast
  next
    case deferred_raised
    then have "trace (snd (flush_updates env ca cfg final st)) = trace st @ (log1 @ log2)"
      using l1 l2 by simp
    then show ?thesis using l12 e0 by blast
  next
    case full
    then have "trace (snd (flush_updates env ca cfg final st))
        = trace st @ (log1 @ log2) @ [DsyncSync]
          @ (case terminator ca of
               None \<Rightarrow> []
             | Some t \<Rightarrow>
                 concat (map (\<lambda>abs_out_path.
                                [StdoutWrite abs_out_path, StdoutWriteBytes t]) (fsA @ fsB))
                 @ [StdoutFlush, StdoutFsync])
          @ [DsyncFinish]"
      using l1 l2 by (simp add: flush_cache_trace rep)
    then show ?thesis using l12 sAB by blast
  qed
qed

end
